theory Spec2Isabelle
  imports Complex_Main
begin

section \<open>Python values used by the task\<close>

text \<open>
  The delays of the task are Python numbers. Training delays are drawn from
  \<^verbatim>\<open>range(0, 601, 50)\<close> and are ints; staircase delays start from the float
  literals \<^verbatim>\<open>400.0\<close> and \<^verbatim>\<open>100.0\<close> and move by the int step 50 between the float
  bounds \<^verbatim>\<open>0.0\<close> and \<^verbatim>\<open>1000.0\<close>, so they are floats with an integral value.
  \<open>PyFloat n\<close> is the Python float whose value is the integer \<open>n\<close>; floats with a
  fractional part do not occur in the program and are not modelled.
\<close>

datatype pynum = PyInt int | PyFloat int

fun num_val :: "pynum \<Rightarrow> int" where
  "num_val (PyInt n) = n"
| "num_val (PyFloat n) = n"

fun is_float :: "pynum \<Rightarrow> bool" where
  "is_float (PyInt n) = False"
| "is_float (PyFloat n) = True"

text \<open>Python arithmetic on mixed operands: the result is a float as soon as one operand is.\<close>

definition py_add :: "pynum \<Rightarrow> pynum \<Rightarrow> pynum" where
  "py_add a b =
     (if is_float a \<or> is_float b then PyFloat (num_val a + num_val b)
      else PyInt (num_val a + num_val b))"

definition py_sub :: "pynum \<Rightarrow> pynum \<Rightarrow> pynum" where
  "py_sub a b =
     (if is_float a \<or> is_float b then PyFloat (num_val a - num_val b)
      else PyInt (num_val a - num_val b))"

definition py_less :: "pynum \<Rightarrow> pynum \<Rightarrow> bool" where
  "py_less a b = (num_val a < num_val b)"

text \<open>Decimal text of a number, as \<^verbatim>\<open>str\<close> gives it.\<close>

definition digit_char :: "nat \<Rightarrow> char" where
  "digit_char d = char_of (48 + d)"

fun str_nat :: "nat \<Rightarrow> string" where
  "str_nat n = (if n < 10 then [digit_char n] else str_nat (n div 10) @ [digit_char (n mod 10)])"

definition str_int :: "int \<Rightarrow> string" where
  "str_int i = (if i < 0 then CHR ''-'' # str_nat (nat (- i)) else str_nat (nat i))"

text \<open>
  \<^verbatim>\<open>str\<close> of an int is its decimal text; \<^verbatim>\<open>str\<close> of a float with an integral
  value of magnitude below \<open>10^16\<close> is that text followed by \<^verbatim>\<open>.0\<close> (beyond that
  magnitude Python switches to exponent notation, which is outside this model).
\<close>

fun py_str :: "pynum \<Rightarrow> string" where
  "py_str (PyInt n) = str_int n"
| "py_str (PyFloat n) = str_int n @ ''.0''"

section \<open>The staircase engine\<close>

text \<open>
  Modelled from the spec: the staircase object is a \<^verbatim>\<open>data.StairHandler\<close> of the
  PsychoPy library, whose code is not part of the repository's sources. Its state,
  \<open>nextValue\<close> (\<^verbatim>\<open>staircase.next()\<close>) and \<open>applyResponse\<close>
  (\<^verbatim>\<open>staircase.addResponse(code)\<close>) follow the data model and the algorithm of the
  specification's StaircaseEngine, step by step.
\<close>

datatype direction = UP | DOWN | NONE

datatype response = REPEAT | INCREASE_SIGNAL | DECREASE_SIGNAL

datatype engine_error = InvalidStateError | InvalidResponseError

record staircase =
  name :: string
  currentValue :: pynum
  startValue :: pynum
  minValue :: pynum
  maxValue :: pynum
  stepSize :: pynum
  direction :: direction
  consecutiveUp :: nat
  consecutiveDown :: nat
  nUp :: nat
  nDown :: nat
  reversalCount :: nat
  targetReversals :: nat
  maxTrials :: nat
  trialsRun :: nat
  responseHistory :: "response list"
  finished :: bool

text \<open>
  Modelled from the spec: a staircase as constructed, in state RUNNING with the current
  value at the start value, no direction and all counters zero.
\<close>

definition new_staircase ::
  "pynum \<Rightarrow> pynum \<Rightarrow> nat \<Rightarrow> nat \<Rightarrow> nat \<Rightarrow> nat \<Rightarrow> pynum \<Rightarrow> pynum \<Rightarrow> string \<Rightarrow> staircase" where
  "new_staircase startVal stepSizes nReversals nTrials n_up n_down minVal maxVal nm =
     \<lparr> name = nm, currentValue = startVal, startValue = startVal,
       minValue = minVal, maxValue = maxVal, stepSize = stepSizes,
       direction = NONE, consecutiveUp = 0, consecutiveDown = 0,
       nUp = n_up, nDown = n_down, reversalCount = 0, targetReversals = nReversals,
       maxTrials = nTrials, trialsRun = 0, responseHistory = [], finished = False \<rparr>"

text \<open>Modelled from the spec: the read of the current value; it fails once FINISHED.\<close>

definition nextValue :: "staircase \<Rightarrow> engine_error + pynum" where
  "nextValue s = (if finished s then Inl InvalidStateError else Inr (currentValue s))"

text \<open>Modelled from the spec: the value clamped to the staircase's bounds.\<close>

definition clamp :: "staircase \<Rightarrow> pynum \<Rightarrow> pynum" where
  "clamp s v =
     (if py_less v (minValue s) then minValue s
      else if py_less (maxValue s) v then maxValue s
      else v)"

text \<open>
  Modelled from the spec, step 3 of \<open>applyResponse\<close>: the move made when a consecutive
  counter has reached its threshold. A reversal is counted when a previous direction
  exists and differs from the new one.
\<close>

definition move :: "direction \<Rightarrow> staircase \<Rightarrow> staircase" where
  "move d s =
     s\<lparr> reversalCount :=
          (if direction s \<noteq> NONE \<and> direction s \<noteq> d then reversalCount s + 1
           else reversalCount s),
        direction := d,
        currentValue :=
          clamp s (if d = UP then py_add (currentValue s) (stepSize s)
                   else py_sub (currentValue s) (stepSize s)),
        consecutiveUp := 0,
        consecutiveDown := 0 \<rparr>"

text \<open>Modelled from the spec, step 4: the one-way transition to FINISHED.\<close>

definition check_finished :: "staircase \<Rightarrow> staircase" where
  "check_finished s =
     (if maxTrials s \<le> trialsRun s \<or> targetReversals s \<le> reversalCount s
      then s\<lparr> finished := True \<rparr> else s)"

text \<open>
  Modelled from the spec: \<open>applyResponse\<close>. A call after FINISHED fails; REPEAT returns
  at once and changes nothing; a directional response is counted, updates its
  consecutive counter (resetting the other), moves the value when the counter has
  reached its threshold, and then tests the two caps.
\<close>

definition applyResponse :: "staircase \<Rightarrow> response \<Rightarrow> engine_error + staircase" where
  "applyResponse s code =
     (if finished s then Inl InvalidStateError
      else case code of
        REPEAT \<Rightarrow> Inr s
      | INCREASE_SIGNAL \<Rightarrow>
          (let s1 = s\<lparr> trialsRun := trialsRun s + 1,
                       responseHistory := responseHistory s @ [code],
                       consecutiveUp := consecutiveUp s + 1,
                       consecutiveDown := 0 \<rparr>;
               s2 = (if nUp s1 \<le> consecutiveUp s1 then move UP s1 else s1)
           in Inr (check_finished s2))
      | DECREASE_SIGNAL \<Rightarrow>
          (let s1 = s\<lparr> trialsRun := trialsRun s + 1,
                       responseHistory := responseHistory s @ [code],
                       consecutiveDown := consecutiveDown s + 1,
                       consecutiveUp := 0 \<rparr>;
               s2 = (if nDown s1 \<le> consecutiveDown s1 then move DOWN s1 else s1)
           in Inr (check_finished s2)))"

text \<open>
  Modelled from the spec: the response codes of the concrete task. The source's comment on
  the code table reads "before (move up), in-sync (don't move), after (move down)":
  0 is the increase signal, 1 the decrease signal, -1 the repeat sentinel; any other
  code is not a response.
\<close>

definition decode_response :: "int \<Rightarrow> engine_error + response" where
  "decode_response c =
     (if c = - 1 then Inr REPEAT
      else if c = 0 then Inr INCREASE_SIGNAL
      else if c = 1 then Inr DECREASE_SIGNAL
      else Inl InvalidResponseError)"

definition addResponse :: "staircase \<Rightarrow> int \<Rightarrow> engine_error + staircase" where
  "addResponse s c =
     (case decode_response c of
        Inl e \<Rightarrow> Inl e
      | Inr code \<Rightarrow> applyResponse s code)"

text \<open>A run of responses applied one after the other; the first failure ends it.\<close>

fun apply_responses :: "staircase \<Rightarrow> response list \<Rightarrow> engine_error + staircase" where
  "apply_responses s [] = Inr s"
| "apply_responses s (c # cs) =
     (case applyResponse s c of
        Inl e \<Rightarrow> Inl e
      | Inr s' \<Rightarrow> apply_responses s' cs)"

text \<open>
  The four staircases of \<^verbatim>\<open>run_s_hdt\<close> (\<^verbatim>\<open>staircase_set\<close>), with the parameters
  the source passes to each \<^verbatim>\<open>data.StairHandler\<close>.
\<close>

definition staircase_set :: "staircase list" where
  "staircase_set =
     [ new_staircase (PyFloat 400) (PyInt 50) 3 15 2 2 (PyFloat 0) (PyFloat 1000) ''400_1'',
       new_staircase (PyFloat 100) (PyInt 50) 3 15 2 2 (PyFloat 0) (PyFloat 1000) ''100_1'',
       new_staircase (PyFloat 400) (PyInt 50) 3 15 2 2 (PyFloat 0) (PyFloat 1000) ''400_2'',
       new_staircase (PyFloat 100) (PyInt 50) 3 15 2 2 (PyFloat 0) (PyFloat 1000) ''100_2'' ]"

section \<open>Python text operations\<close>

text \<open>
  Texts are lists of characters with code points below 256. The character classes are
  Python's on that range: \<^verbatim>\<open>str.isdigit\<close> is used on keyboard input and
  \<^verbatim>\<open>str.isalpha\<close>, \<^verbatim>\<open>str.lower\<close> on file names, both ASCII here.
\<close>

definition is_digit_char :: "char \<Rightarrow> bool" where
  "is_digit_char c = ((48::nat) \<le> of_char c \<and> of_char c \<le> (57::nat))"

definition py_isdigit :: "string \<Rightarrow> bool" where
  "py_isdigit s = (s \<noteq> [] \<and> list_all is_digit_char s)"

definition digit_val :: "char \<Rightarrow> nat" where
  "digit_val c = of_char c - (48::nat)"

text \<open>\<^verbatim>\<open>int(s)\<close> for a text of decimal digits.\<close>

definition py_int :: "string \<Rightarrow> int" where
  "py_int s = int (foldl (\<lambda>acc c. 10 * acc + digit_val c) 0 s)"

definition py_isspace :: "char \<Rightarrow> bool" where
  "py_isspace c = (of_char c \<in> set [9, 10, 11, 12, 13, 28, 29, 30, 31, 32, 133, 160 :: nat])"

definition py_strip :: "string \<Rightarrow> string" where
  "py_strip s = rev (dropWhile py_isspace (rev (dropWhile py_isspace s)))"

definition py_isalpha :: "char \<Rightarrow> bool" where
  "py_isalpha c =
     (((65::nat) \<le> of_char c \<and> of_char c \<le> (90::nat)) \<or>
      ((97::nat) \<le> of_char c \<and> of_char c \<le> (122::nat)))"

definition py_lower :: "char \<Rightarrow> char" where
  "py_lower c =
     (if (65::nat) \<le> of_char c \<and> of_char c \<le> (90::nat) then char_of (of_char c + (32::nat)) else c)"

definition startswith :: "string \<Rightarrow> string \<Rightarrow> bool" where
  "startswith s p = (take (length p) s = p)"

definition endswith :: "string \<Rightarrow> string \<Rightarrow> bool" where
  "endswith s p = (length p \<le> length s \<and> drop (length s - length p) s = p)"

section \<open>The environment of a session\<close>

text \<open>
  The task talks to the keyboard, the mouse and the serial port. A session is run
  against a script of ticks: each tick is what the devices deliver at the next point
  where the program polls them (one loop iteration of a polling loop, one call of
  \<^verbatim>\<open>event.getKeys\<close> otherwise). When the script is used up nothing arrives any more,
  so a loop that waits for input then runs forever: the outcome \<open>Diverges\<close>.
\<close>

type_synonym key = string

text \<open>
  What \<^verbatim>\<open>ser.read(6).decode('utf-8')\<close> gives at a poll: the text of the bytes read
  (none when the read timed out), or bytes that are not UTF-8, on which Python raises.
\<close>

datatype serial_data = Text string | Undecodable

record tick =
  keys :: "key list"        \<comment> \<open>the keys pressed since the last poll\<close>
  pointer_x :: real         \<comment> \<open>\<^verbatim>\<open>mouse.getPos()[0]\<close>\<close>
  over :: "nat list"        \<comment> \<open>the button rectangles that contain the pointer, by index\<close>
  pressed :: bool           \<comment> \<open>\<^verbatim>\<open>mouse.getPressed()[0]\<close>\<close>
  serial :: serial_data

text \<open>The cells of a row of the log file: texts, ints, delays, and slider positions.\<close>

datatype cell = S string | I int | N pynum | F real

text \<open>What a session does, in program order.\<close>

datatype event =
    TrialStarted pynum      \<comment> \<open>a trial function is entered and shows the heart image\<close>
  | SerialWrite string      \<comment> \<open>\<^verbatim>\<open>ser.write\<close> of the encoded text\<close>
  | SerialRead serial_data  \<comment> \<open>\<^verbatim>\<open>ser.read(6)\<close>, decoded\<close>
  | KeysRead "key list"     \<comment> \<open>\<^verbatim>\<open>event.getKeys\<close> or \<^verbatim>\<open>event.waitKeys\<close>\<close>
  | Waited nat              \<comment> \<open>\<^verbatim>\<open>core.wait\<close>, in milliseconds\<close>
  | ResponseScreen          \<comment> \<open>the question of a trial and its three buttons are drawn\<close>
  | AskScreen               \<comment> \<open>the again-or-stop question and its two buttons are drawn\<close>
  | ErrorMessage            \<comment> \<open>the INVALID INPUT message is shown\<close>
  | RowWritten "cell list"  \<comment> \<open>one row appended to the log file\<close>
  | AddResponse int         \<comment> \<open>\<^verbatim>\<open>staircase.addResponse\<close> is called with this code\<close>
  | FileClosed              \<comment> \<open>\<^verbatim>\<open>csv_file.close()\<close> outside a write\<close>
  | WindowClosed            \<comment> \<open>\<^verbatim>\<open>win.close()\<close>\<close>

record world =
  ticks :: "tick list"
  trace :: "event list"

datatype py_error = IndexError | UnicodeDecodeError | StaircaseError engine_error

text \<open>
  How a call ends: it returns a value, the process is ended by \<^verbatim>\<open>core.quit()\<close>, an
  exception propagates, or it never returns. Each outcome carries the world as the call
  leaves it; for a call that never returns, the world when the script ran out.
\<close>

datatype 'a outcome = Done 'a world | Quit world | Raised py_error world | Diverges world

fun and_then :: "'a outcome \<Rightarrow> ('a \<Rightarrow> world \<Rightarrow> 'b outcome) \<Rightarrow> 'b outcome" where
  "and_then (Done x w) f = f x w"
| "and_then (Quit w) f = Quit w"
| "and_then (Raised e w) f = Raised e w"
| "and_then (Diverges w) f = Diverges w"

fun world_of :: "'a outcome \<Rightarrow> world" where
  "world_of (Done x w) = w"
| "world_of (Quit w) = w"
| "world_of (Raised e w) = w"
| "world_of (Diverges w) = w"

definition emit :: "event \<Rightarrow> world \<Rightarrow> world" where
  "emit e w = w\<lparr> trace := trace w @ [e] \<rparr>"

definition core_wait :: "nat \<Rightarrow> world \<Rightarrow> world" where
  "core_wait ms w = emit (Waited ms) w"

text \<open>The next tick of the script, if any is left.\<close>

definition poll :: "world \<Rightarrow> (tick \<times> world) option" where
  "poll w = (case ticks w of [] \<Rightarrow> None | t # ts \<Rightarrow> Some (t, w\<lparr> ticks := ts \<rparr>))"

text \<open>
  \<^verbatim>\<open>event.getKeys()\<close> outside a polling loop: it does not block, and returns no key
  when nothing arrives any more.
\<close>

definition getKeys :: "world \<Rightarrow> key list \<times> world" where
  "getKeys w =
     (case poll w of
        None \<Rightarrow> ([], emit (KeysRead []) w)
      | Some (t, w1) \<Rightarrow> (keys t, emit (KeysRead (keys t)) w1))"

text \<open>The rows of the log file, the texts written to the serial port and the trials started.\<close>

fun rows_of :: "event list \<Rightarrow> cell list list" where
  "rows_of [] = []"
| "rows_of (RowWritten r # es) = r # rows_of es"
| "rows_of (e # es) = rows_of es"

fun writes_of :: "event list \<Rightarrow> string list" where
  "writes_of [] = []"
| "writes_of (SerialWrite s # es) = s # writes_of es"
| "writes_of (e # es) = writes_of es"

fun trials_of :: "event list \<Rightarrow> pynum list" where
  "trials_of [] = []"
| "trials_of (TrialStarted d # es) = d # trials_of es"
| "trials_of (e # es) = trials_of es"

lemma ticks_emit [simp]: "ticks (emit e w) = ticks w"
  by (simp add: emit_def)

lemma ticks_core_wait [simp]: "ticks (core_wait ms w) = ticks w"
  by (simp add: core_wait_def)

lemma poll_shorter: "poll w = Some (t, w1) \<Longrightarrow> length (ticks w1) < length (ticks w)"
  by (auto simp: poll_def split: list.splits)

section \<open>Waiting for the operator\<close>

text \<open>
  \<^verbatim>\<open>wait_for_key_press\<close>: the instruction is redrawn until RETURN is pressed; ESCAPE
  ends the process. RETURN is tested first.
\<close>

function wait_for_key_press :: "world \<Rightarrow> unit outcome" where
  "wait_for_key_press w =
     (case poll w of
        None \<Rightarrow> Diverges w
      | Some (t, w1) \<Rightarrow>
          (let w2 = emit (KeysRead (keys t)) w1 in
           if ''return'' \<in> set (keys t) then Done () w2
           else if ''escape'' \<in> set (keys t) then Quit w2
           else wait_for_key_press w2))"
  by pat_completeness auto
termination
  by (relation "measure (\<lambda>w. length (ticks w))") (auto dest: poll_shorter)

declare wait_for_key_press.simps [simp del]

section \<open>Choosing one of the on-screen buttons\<close>

text \<open>
  The trial functions and \<^verbatim>\<open>ask_run_another\<close> share one response loop, written out
  in each of them: the first button whose rectangle contains the pointer is selected; a
  left click with a button selected is the response; ESCAPE, tested after the click,
  ends the process. \<open>n\<close> is the number of buttons.
\<close>

function response_loop :: "nat \<Rightarrow> world \<Rightarrow> nat outcome" where
  "response_loop n w =
     (case poll w of
        None \<Rightarrow> Diverges w
      | Some (t, w1) \<Rightarrow>
          (let buttons_clicked = map (\<lambda>i. i \<in> set (over t)) [0..<n];
               selected_button_index = List.find (\<lambda>i. buttons_clicked ! i) [0..<length buttons_clicked];
               response = (if pressed t then selected_button_index else None);
               w2 = emit (KeysRead (keys t)) w1
           in if ''escape'' \<in> set (keys t) then Quit w2
              else case response of
                     None \<Rightarrow> response_loop n w2
                   | Some r \<Rightarrow> Done r w2))"
  by pat_completeness auto
termination
  by (relation "measure (\<lambda>(n, w). length (ticks w))") (auto dest: poll_shorter)

declare response_loop.simps [simp del]

text \<open>Python's \<^verbatim>\<open>xs[i]\<close> for a non-negative index.\<close>

definition py_index :: "'a list \<Rightarrow> nat \<Rightarrow> py_error + 'a" where
  "py_index xs i = (if i < length xs then Inr (xs ! i) else Inl IndexError)"

text \<open>\<^verbatim>\<open>ask_run_another\<close>: the two buttons after a training trial.\<close>

definition ask_run_another :: "world \<Rightarrow> string outcome" where
  "ask_run_another w =
     and_then (response_loop 2 (emit AskScreen w)) (\<lambda>response w1.
       case py_index [''again'', ''stop''] response of
         Inl e \<Rightarrow> Raised e (core_wait 2000 w1)
       | Inr option \<Rightarrow> Done option (core_wait 2000 w1))"

section \<open>The confidence rating\<close>

text \<open>
  \<^verbatim>\<open>get_numeric_input\<close>. \<^verbatim>\<open>event.waitKeys(keyList=...)\<close> blocks until a key of the
  list is pressed and returns the keys of the list pressed then.
\<close>

definition digits :: string where
  "digits = ''0123456789''"

text \<open>
  The key list of the source: the ten digit keys of the main keyboard, the ten of the
  numeric keypad (\<^verbatim>\<open>num_0\<close> to \<^verbatim>\<open>num_9\<close>), BACKSPACE, RETURN and ESCAPE.
\<close>

definition keyList :: "key list" where
  "keyList =
     map (\<lambda>c. [c]) digits @ map (\<lambda>c. ''num_'' @ [c]) digits @ [''backspace'', ''return'', ''escape'']"

text \<open>The keypad mapping of the source: \<^verbatim>\<open>num_d\<close> to the digit \<^verbatim>\<open>d\<close>.\<close>

definition keypad_mapping :: "key \<rightharpoonup> string" where
  "keypad_mapping = map_of (map (\<lambda>c. (''num_'' @ [c], [c])) digits)"

function waitKeys :: "key list \<Rightarrow> world \<Rightarrow> (key list \<times> world) option" where
  "waitKeys allowed w =
     (case poll w of
        None \<Rightarrow> None
      | Some (t, w1) \<Rightarrow>
          (let ks = filter (\<lambda>k. k \<in> set allowed) (keys t) in
           if ks = [] then waitKeys allowed w1
           else Some (ks, emit (KeysRead ks) w1)))"
  by pat_completeness auto
termination
  by (relation "measure (\<lambda>(allowed, w). length (ticks w))") (auto dest: poll_shorter)

declare waitKeys.simps [simp del]

text \<open>
  The body of \<^verbatim>\<open>for key in keys\<close>: RETURN confirms a valid text and otherwise shows
  the error message for sixty frames; BACKSPACE drops the last character; a keypad or
  digit key is appended while the text has fewer than three characters; ESCAPE ends
  the process.
\<close>

datatype keys_result = Returned int world | Quitting world | Typed string world

fun handle_keys :: "string \<Rightarrow> key list \<Rightarrow> world \<Rightarrow> keys_result" where
  "handle_keys input_text [] w = Typed input_text w"
| "handle_keys input_text (key # rest) w =
     (if key = ''return'' then
        (if py_isdigit input_text \<and> 0 \<le> py_int input_text \<and> py_int input_text \<le> 100
         then Returned (py_int input_text) w
         else handle_keys input_text rest (emit ErrorMessage w))
      else if key = ''backspace'' then handle_keys (butlast input_text) rest w
      else case keypad_mapping key of
             Some d \<Rightarrow>
               handle_keys (if length input_text < 3 then input_text @ d else input_text) rest w
           | None \<Rightarrow>
               if key = ''escape'' then Quitting w
               else handle_keys (if length input_text < 3 then input_text @ key else input_text) rest w)"

fun result_world :: "keys_result \<Rightarrow> world" where
  "result_world (Returned n w) = w"
| "result_world (Quitting w) = w"
| "result_world (Typed s w) = w"

lemma handle_keys_ticks: "ticks (result_world (handle_keys input_text ks w)) = ticks w"
proof (induction ks arbitrary: input_text w)
  case Nil
  show ?case by simp
next
  case (Cons key rest)
  show ?case
    by (simp only: handle_keys.simps Cons.IH result_world.simps ticks_emit
          split: if_split option.split) simp
qed

lemma waitKeys_shorter: "waitKeys allowed w = Some (ks, w1) \<Longrightarrow> length (ticks w1) < length (ticks w)"
proof (induction allowed w rule: waitKeys.induct)
  case (1 allowed w)
  show ?case
  proof (cases "poll w")
    case None
    with "1.prems" show ?thesis by (simp add: waitKeys.simps[of allowed w])
  next
    case (Some p)
    obtain t w0 where p: "p = (t, w0)" by (cases p)
    have less: "length (ticks w0) < length (ticks w)" using Some p poll_shorter by blast
    show ?thesis
    proof (cases "filter (\<lambda>k. k \<in> set allowed) (keys t) = []")
      case True
      with "1.prems" Some p have "waitKeys allowed w0 = Some (ks, w1)"
        by (simp add: waitKeys.simps[of allowed w])
      with "1.IH" Some p True have "length (ticks w1) < length (ticks w0)" by simp
      with less show ?thesis by simp
    next
      case False
      with "1.prems" Some p have "w1 = emit (KeysRead ks) w0"
        by (auto simp: Let_def waitKeys.simps[of allowed w])
      with less show ?thesis by simp
    qed
  qed
qed

function input_loop :: "string \<Rightarrow> world \<Rightarrow> int outcome" where
  "input_loop input_text w =
     (case waitKeys keyList w of
        None \<Rightarrow> Diverges w
      | Some (ks, w1) \<Rightarrow>
          (case handle_keys input_text ks w1 of
             Returned n w2 \<Rightarrow> Done n w2
           | Quitting w2 \<Rightarrow> Quit w2
           | Typed input_text' w2 \<Rightarrow> input_loop input_text' w2))"
  by pat_completeness auto
termination
proof (relation "measure (\<lambda>(input_text, w). length (ticks w))")
  show "wf (measure (\<lambda>(input_text, w). length (ticks w)))" by simp
next
  fix input_text w p ks w1 input_text' w2
  assume wk: "waitKeys keyList w = Some p" and p: "(ks, w1) = p"
     and hk: "handle_keys input_text ks w1 = Typed input_text' w2"
  from wk p have "length (ticks w1) < length (ticks w)" using waitKeys_shorter by metis
  moreover have "ticks w2 = ticks w1" using handle_keys_ticks[of input_text ks w1] hk by simp
  ultimately show "((input_text', w2), (input_text, w)) \<in> measure (\<lambda>(input_text, w). length (ticks w))"
    by simp
qed

declare input_loop.simps [simp del]

definition get_numeric_input :: "world \<Rightarrow> int outcome" where
  "get_numeric_input w = input_loop [] w"

section \<open>One trial\<close>

text \<open>
  \<^verbatim>\<open>run_set_delay_trial\<close> and \<^verbatim>\<open>run_staircase_trial\<close> have the same body. With the
  recorder attached, the delay and the start command are written to the serial port
  and the port is read until the acknowledgment arrives; ESCAPE ends the process
  between two reads.
\<close>

definition delay_command :: "pynum \<Rightarrow> string" where
  "delay_command current_delay = ''DELAY'' @ py_str current_delay @ '';''"

definition start_command :: string where
  "start_command = ''START;''"

function wait_ended :: "world \<Rightarrow> unit outcome" where
  "wait_ended w =
     (case poll w of
        None \<Rightarrow> Diverges w
      | Some (t, w1) \<Rightarrow>
          (let w2 = emit (SerialRead (serial t)) w1 in
           case serial t of
             Undecodable \<Rightarrow> Raised UnicodeDecodeError w2
           | Text bytes \<Rightarrow>
               (let received_data = take 6 bytes in
                if py_strip received_data = ''ENDED;'' then Done () w2
                else let w3 = emit (KeysRead (keys t)) w2 in
                     if ''escape'' \<in> set (keys t) then Quit w3
                     else wait_ended (core_wait 100 w3))))"
  by pat_completeness auto
termination
  by (relation "measure (\<lambda>w. length (ticks w))") (auto dest: poll_shorter)

declare wait_ended.simps [simp del]

definition buttons :: "string list" where
  "buttons = [''before'', ''same time'', ''after'']"

text \<open>
  The end of a trial function: the wait of two seconds, then the code and the label of
  the button of index \<open>response\<close>.
\<close>

definition code_response :: "nat \<Rightarrow> world \<Rightarrow> (string \<times> int) outcome" where
  "code_response response w2 =
     (let w3 = core_wait 2000 w2 in
      case py_index [0, - 1, 1] response of
        Inl e \<Rightarrow> Raised e w3
      | Inr response_code \<Rightarrow>
          (case py_index buttons response of
             Inl e \<Rightarrow> Raised e w3
           | Inr button \<Rightarrow> Done (button, response_code) w3))"

definition hdt_trial :: "pynum \<Rightarrow> bool \<Rightarrow> bool \<Rightarrow> world \<Rightarrow> (string \<times> int) outcome" where
  "hdt_trial current_delay is_integrated_external if_debug w =
     (let w0 = core_wait 500 (emit (TrialStarted current_delay) w) in
      and_then
        (if is_integrated_external then
           and_then
             (wait_ended
                (emit (SerialWrite start_command)
                   (emit (SerialWrite (delay_command current_delay)) w0)))
             (\<lambda>_ w1. Done () (core_wait 1000 w1))
         else Done () (core_wait 2000 w0))
        (\<lambda>_ w1. and_then (response_loop (length buttons) (emit ResponseScreen w1)) code_response))"

definition run_set_delay_trial :: "pynum \<Rightarrow> bool \<Rightarrow> bool \<Rightarrow> world \<Rightarrow> (string \<times> int) outcome" where
  "run_set_delay_trial = hdt_trial"

definition run_staircase_trial :: "pynum \<Rightarrow> bool \<Rightarrow> bool \<Rightarrow> world \<Rightarrow> (string \<times> int) outcome" where
  "run_staircase_trial = hdt_trial"

section \<open>The post-task questions\<close>

text \<open>
  \<^verbatim>\<open>get_post_task_qs\<close>: one slider per question. With the mouse, a left click takes
  the marker position as the response; otherwise the marker follows the pointer while
  the mapped value is within 0 to 100. With the keyboard, LEFT and RIGHT give the
  first and the last option of the scale. Positions are Python floats, modelled by the
  reals they stand for. \<open>markerPos\<close> starts at \<^verbatim>\<open>random.uniform(20, 80)\<close>.
\<close>

lemma getKeys_ticks: "getKeys w = (ks, w1) \<Longrightarrow> length (ticks w1) \<le> length (ticks w)"
  by (auto simp: getKeys_def split: option.splits dest: poll_shorter)

function slider_loop :: "bool \<Rightarrow> nat \<Rightarrow> real \<Rightarrow> world \<Rightarrow> cell outcome" where
  "slider_loop use_mouse n_scale markerPos w =
     (case poll w of
        None \<Rightarrow> Diverges w
      | Some (t, w1) \<Rightarrow>
          (let w2 = emit (KeysRead (keys t)) w1 in
           if ''escape'' \<in> set (keys t) then Quit w2
           else if use_mouse then
             (if pressed t then Done (F markerPos) (core_wait 1000 w2)
              else
                (let slider_value = (pointer_x t + 300) / 6 in
                 slider_loop use_mouse n_scale
                   (if 0 \<le> slider_value \<and> slider_value \<le> 100 then slider_value else markerPos) w2))
           else
             (case getKeys w2 of (keys2, w3) \<Rightarrow>
                if ''left'' \<in> set keys2 then Done (I 0) (core_wait 1000 w3)
                else if ''right'' \<in> set keys2 then Done (I (int n_scale - 1)) (core_wait 1000 w3)
                else slider_loop use_mouse n_scale markerPos w3)))"
  by pat_completeness auto
termination
  apply (relation "measure (\<lambda>(use_mouse, n_scale, markerPos, w). length (ticks w))")
    apply simp
   apply (auto dest: poll_shorter)[1]
  apply (auto dest!: poll_shorter getKeys_ticks[OF sym])
  done

declare slider_loop.simps [simp del]

definition questions :: "(string \<times> string \<times> string list) list" where
  "questions =
     [(''TaskGeneral'', ''I find the task'', [''Very unpleasant'', ''Very pleasant'']),
      (''Difficulty'', ''I find the task'', [''Very easy'', ''Very hard'']),
      (''Breathless'', ''I feel breathless / have trouble breathing.'', [''Not at all'', ''Completely''])]"

text \<open>
  The loop over the questions. \<open>initial_position\<close> gives the random start of the marker
  for each question.
\<close>

fun questions_loop ::
  "(string \<Rightarrow> real) \<Rightarrow> bool \<Rightarrow> (string \<times> string \<times> string list) list \<Rightarrow> world \<Rightarrow> unit outcome" where
  "questions_loop initial_position use_mouse [] w = Done () w"
| "questions_loop initial_position use_mouse ((label, question, scale) # rest) w =
     and_then (slider_loop use_mouse (length scale) (initial_position label) w) (\<lambda>response w1.
       questions_loop initial_position use_mouse rest
         (emit (RowWritten [S ''Post_task_question'', S label, response, S ''NA'', S ''NA'', S ''NA'']) w1))"

definition get_post_task_qs :: "(string \<Rightarrow> real) \<Rightarrow> bool \<Rightarrow> world \<Rightarrow> unit outcome" where
  "get_post_task_qs initial_position use_mouse w = questions_loop initial_position use_mouse questions w"

section \<open>The name of the log file\<close>

text \<open>
  The part of \<^verbatim>\<open>run_s_hdt\<close> that picks the log file. \<open>listing\<close> is
  \<^verbatim>\<open>os.listdir(save_dir)\<close>; a file exists when the listing has its name. The result is
  the file name inside \<^verbatim>\<open>save_dir\<close>. File names are ASCII.
\<close>

definition base_name :: "string \<Rightarrow> string" where
  "base_name participant_id = ''sub-'' @ participant_id @ ''_s_hdt''"

text \<open>The index a listed file contributes, if any: the body of the loop over the files.\<close>

definition suffix_index :: "string \<Rightarrow> string \<Rightarrow> nat option" where
  "suffix_index base file =
     (if file = base @ ''.tsv'' then None
      else if startswith file (base @ ''_'') \<and> endswith file ''.tsv'' then
        (let suffix = drop (length base + 1) (take (length file - 4) file) in
         if length suffix = 1 \<and> list_all py_isalpha suffix
         then Some (of_char (py_lower (hd suffix)) - of_char CHR ''a'')
         else None)
      else None)"

definition csv_file_name :: "string \<Rightarrow> string list \<Rightarrow> string" where
  "csv_file_name participant_id listing =
     (let base = base_name participant_id in
      if base @ ''.tsv'' \<in> set listing then
        (let existing_files = filter (\<lambda>f. startswith f base) listing;
             indices = List.map_filter (suffix_index base) existing_files;
             next_index = (if indices = [] then 0 else Max (set indices) + 1);
             next_suffix = char_of (of_char CHR ''a'' + next_index)
         in base @ ''_'' @ [next_suffix] @ ''.tsv'')
      else base @ ''.tsv'')"

section \<open>The instruction pages\<close>

function show_instructions :: "world \<Rightarrow> string outcome" where
  "show_instructions w =
     (case poll w of
        None \<Rightarrow> Diverges w
      | Some (t, w1) \<Rightarrow>
          (let w2 = emit (KeysRead (keys t)) w1 in
           if ''escape'' \<in> set (keys t) then Quit w2
           else if ''left'' \<in> set (keys t) then Done ''previous'' w2
           else if ''return'' \<in> set (keys t) then Done ''next'' w2
           else show_instructions w2))"
  by pat_completeness auto
termination
  by (relation "measure (\<lambda>w. length (ticks w))") (auto dest: poll_shorter)

declare show_instructions.simps [simp del]

lemma show_instructions_shorter:
  "show_instructions w = Done r w' \<Longrightarrow> length (ticks w') < length (ticks w)"
proof (induction w rule: show_instructions.induct)
  case (1 w)
  show ?case
  proof (cases "poll w")
    case None
    with "1.prems" show ?thesis by (simp add: show_instructions.simps[of w])
  next
    case (Some p)
    obtain t w1 where p: "p = (t, w1)" by (cases p)
    have less: "length (ticks (emit (KeysRead (keys t)) w1)) < length (ticks w)"
      using Some p poll_shorter by simp
    show ?thesis
    proof (cases "''escape'' \<in> set (keys t) \<or> ''left'' \<in> set (keys t) \<or> ''return'' \<in> set (keys t)")
      case True
      with "1.prems" Some p less show ?thesis
        by (auto simp: Let_def show_instructions.simps[of w] split: if_splits)
    next
      case False
      with "1.prems" Some p have "show_instructions (emit (KeysRead (keys t)) w1) = Done r w'"
        by (simp add: Let_def show_instructions.simps[of w])
      with "1.IH"[OF Some p[symmetric] refl] False less show ?thesis by simp
    qed
  qed
qed

text \<open>
  \<^verbatim>\<open>show_instructions_list\<close>: \<open>n\<close> pages, \<open>index\<close> the page shown. RETURN moves on,
  LEFT moves back except on the first page.
\<close>

function show_instructions_list :: "nat \<Rightarrow> nat \<Rightarrow> world \<Rightarrow> unit outcome" where
  "show_instructions_list n index w =
     (if index < n then
        (case show_instructions w of
           Done result w1 \<Rightarrow>
             if result = ''next'' then show_instructions_list n (index + 1) w1
             else if result = ''previous'' \<and> index > 0 then show_instructions_list n (index - 1) w1
             else show_instructions_list n index w1
         | Quit w1 \<Rightarrow> Quit w1
         | Raised e w1 \<Rightarrow> Raised e w1
         | Diverges w1 \<Rightarrow> Diverges w1)
      else Done () w)"
  by pat_completeness auto
termination
  by (relation "measure (\<lambda>(n, index, w). length (ticks w))") (auto dest: show_instructions_shorter)

declare show_instructions_list.simps [simp del]

section \<open>The training phase\<close>

text \<open>
  The training loop of \<^verbatim>\<open>run_s_hdt\<close>, over \<^verbatim>\<open>enumerate(train_values)\<close>;
  \<open>i\<close> is the index of the first delay of the list. \<open>train_values\<close> is the draw
  \<^verbatim>\<open>random.choices(range(0, 601, 50), k=20)\<close>.
\<close>

fun training_loop :: "bool \<Rightarrow> bool \<Rightarrow> nat \<Rightarrow> int list \<Rightarrow> world \<Rightarrow> unit outcome" where
  "training_loop is_integrated_external if_debug i [] w = Done () w"
| "training_loop is_integrated_external if_debug i (delay # rest) w =
     and_then (run_set_delay_trial (PyInt delay) is_integrated_external if_debug w)
       (\<lambda>(button, response_code) w1.
          and_then (get_numeric_input w1) (\<lambda>confidence w2.
            let w3 = emit (RowWritten [S ''Training'', I (int i + 1), N (PyInt delay), S button,
                                       I response_code, I confidence]) w2
            in if i > 0 then
                 and_then (ask_run_another w3) (\<lambda>next_action w4.
                   if next_action = ''stop'' then Done () w4
                   else training_loop is_integrated_external if_debug (i + 1) rest w4)
               else training_loop is_integrated_external if_debug (i + 1) rest w3))"

section \<open>The staircase phase\<close>

text \<open>
  The loop \<^verbatim>\<open>for trial in range(staircase.nTrials)\<close> over the trial indices still
  to come. ESCAPE at the top of an iteration closes the file and the window and leaves
  this loop with \<^verbatim>\<open>break\<close>; so does a finished staircase. A response code of -1
  skips \<^verbatim>\<open>addResponse\<close>; for any other code \<open>add_response\<close> is the call
  \<^verbatim>\<open>staircase.addResponse(response_code)\<close>, which the trace records. The name in a row
  is the staircase's, which the source reads once before the loop and no operation
  changes. The staircase is returned as the loop leaves it.
\<close>

definition add_response :: "staircase \<Rightarrow> int \<Rightarrow> world \<Rightarrow> staircase outcome" where
  "add_response staircase response_code w =
     (case addResponse staircase response_code of
        Inl e \<Rightarrow> Raised (StaircaseError e) (emit (AddResponse response_code) w)
      | Inr staircase' \<Rightarrow> Done staircase' (emit (AddResponse response_code) w))"

fun trials_loop :: "bool \<Rightarrow> bool \<Rightarrow> nat list \<Rightarrow> staircase \<Rightarrow> world \<Rightarrow> staircase outcome" where
  "trials_loop is_integrated_external if_debug [] staircase w = Done staircase w"
| "trials_loop is_integrated_external if_debug (trial # rest) staircase w =
     (case getKeys w of (pressed_keys, w1) \<Rightarrow>
        if ''escape'' \<in> set pressed_keys then Done staircase (emit WindowClosed (emit FileClosed w1))
        else if finished staircase then Done staircase w1
        else
          (case nextValue staircase of
             Inl e \<Rightarrow> Raised (StaircaseError e) w1
           | Inr current_delay \<Rightarrow>
               and_then (run_staircase_trial current_delay is_integrated_external if_debug w1)
                 (\<lambda>(button, response_code) w2.
                    and_then
                      (if response_code = - 1 then Done staircase w2
                       else add_response staircase response_code w2)
                      (\<lambda>staircase' w3.
                         and_then (get_numeric_input w3) (\<lambda>confidence w4.
                           trials_loop is_integrated_external if_debug rest staircase'
                             (emit (RowWritten [S (name staircase), I (int trial + 1),
                                                N current_delay, S button, I response_code,
                                                I confidence]) w4))))))"

text \<open>
  The loop over \<^verbatim>\<open>enumerate(staircase_set)\<close>; \<open>index\<close> is the index of the first
  staircase of the list and \<open>n\<close> the length of the whole set. After every staircase but
  the last the operator is asked to continue. A trial loop that was left by ESCAPE is
  followed like any other: the source has no statement that ends the session there.
  What PsychoPy does with a window that has been closed lies outside the source; the
  model follows the statements of the source.
\<close>

fun staircases_loop ::
  "bool \<Rightarrow> bool \<Rightarrow> nat \<Rightarrow> nat \<Rightarrow> staircase list \<Rightarrow> world \<Rightarrow> staircase list outcome" where
  "staircases_loop is_integrated_external if_debug n index [] w = Done [] w"
| "staircases_loop is_integrated_external if_debug n index (staircase # rest) w =
     and_then
       (trials_loop is_integrated_external if_debug [0..<maxTrials staircase] staircase w)
       (\<lambda>staircase' w1.
          and_then
            (if index < n - 1 then
               and_then (wait_for_key_press w1) (\<lambda>_ w2. Done () (core_wait 1000 w2))
             else Done () w1)
            (\<lambda>_ w2.
               and_then (staircases_loop is_integrated_external if_debug n (index + 1) rest w2)
                 (\<lambda>rest' w3. Done (staircase' # rest') w3)))"

section \<open>The session\<close>

text \<open>
  \<^verbatim>\<open>run_s_hdt\<close> from the opening of the log file on: the two header rows, the
  instruction pages, the training, the staircases, the post-task questions, and the
  closing of the window. The participant, the directory listing, the random draws and
  the staircases are parameters.
\<close>

definition header_rows :: "string \<Rightarrow> cell list list" where
  "header_rows participant_id =
     [[S ''Participant ID'', S participant_id],
      [S ''Staircase_name'', S ''Trial'', S ''Current Delay'', S ''Button'', S ''Response_code'',
       S ''Confidence'']]"

definition run_s_hdt ::
  "bool \<Rightarrow> bool \<Rightarrow> string \<Rightarrow> int list \<Rightarrow> (string \<Rightarrow> real) \<Rightarrow> staircase list \<Rightarrow> world
     \<Rightarrow> staircase list outcome" where
  "run_s_hdt is_integrated_external if_debug participant_id train_values initial_position stairs w =
     (let w1 = foldl (\<lambda>w r. emit (RowWritten r) w) w (header_rows participant_id) in
      and_then (show_instructions_list 4 0 w1) (\<lambda>_ w2.
        and_then (training_loop is_integrated_external if_debug 0 train_values (core_wait 500 w2))
          (\<lambda>_ w3.
             and_then (wait_for_key_press w3) (\<lambda>_ w4.
               and_then
                 (staircases_loop is_integrated_external if_debug (length stairs) 0 stairs
                    (core_wait 500 w4))
                 (\<lambda>stairs' w5.
                    and_then (get_post_task_qs initial_position True w5) (\<lambda>_ w6.
                      Done stairs' (emit WindowClosed (core_wait 2000 w6))))))))"

section \<open>Scripts for concrete runs\<close>

text \<open>
  Ticks for the concrete sessions below: nothing happens; keys are pressed; the left
  button is clicked on the button of a given index; text arrives on the serial port.
\<close>

definition idle :: tick where
  "idle = \<lparr> keys = [], pointer_x = 0, over = [], pressed = False, serial = Text [] \<rparr>"

definition press :: "key list \<Rightarrow> tick" where
  "press ks = idle\<lparr> keys := ks \<rparr>"

definition click :: "nat \<Rightarrow> tick" where
  "click i = idle\<lparr> over := [i], pressed := True \<rparr>"

definition arrives :: "string \<Rightarrow> tick" where
  "arrives bytes = idle\<lparr> serial := Text bytes \<rparr>"

definition script :: "tick list \<Rightarrow> world" where
  "script ts = \<lparr> ticks = ts, trace = [] \<rparr>"

section \<open>Properties of the staircase engine\<close>

lemma move_fields:
  "maxTrials (move d s) = maxTrials s" "targetReversals (move d s) = targetReversals s"
  "trialsRun (move d s) = trialsRun s" "finished (move d s) = finished s"
  by (simp_all add: move_def)

lemma check_finished_fields:
  "maxTrials (check_finished s) = maxTrials s"
  "targetReversals (check_finished s) = targetReversals s"
  by (simp_all add: check_finished_def)

lemma check_finished_iff:
  "\<not> finished s \<Longrightarrow>
   finished (check_finished s) =
     (maxTrials (check_finished s) \<le> trialsRun (check_finished s)
      \<or> targetReversals (check_finished s) \<le> reversalCount (check_finished s))"
  by (simp add: check_finished_def)

lemma applyResponse_finished: "finished s \<Longrightarrow> applyResponse s c = Inl InvalidStateError"
  by (simp add: applyResponse_def)

lemma applyResponse_repeat: "applyResponse s REPEAT = Inr s' \<Longrightarrow> s' = s"
  by (auto simp: applyResponse_def split: if_splits)

text \<open>A counted response ends in the test of the caps, on a state that was still running.\<close>

lemma applyResponse_counted:
  assumes "applyResponse s c = Inr s'" and "c \<noteq> REPEAT"
  shows "\<exists>s2. s' = check_finished s2 \<and> \<not> finished s2 \<and> maxTrials s2 = maxTrials s
            \<and> targetReversals s2 = targetReversals s"
proof -
  have nf: "\<not> finished s" using assms(1) by (auto simp: applyResponse_def)
  show ?thesis
  proof (cases c)
    case REPEAT
    with assms(2) show ?thesis by simp
  next
    case INCREASE_SIGNAL
    define s1 where "s1 = s\<lparr> trialsRun := trialsRun s + 1,
        responseHistory := responseHistory s @ [c],
        consecutiveUp := consecutiveUp s + 1, consecutiveDown := 0 \<rparr>"
    define s2 where "s2 = (if nUp s1 \<le> consecutiveUp s1 then move UP s1 else s1)"
    have "s' = check_finished s2"
      using assms(1) nf INCREASE_SIGNAL unfolding applyResponse_def s2_def s1_def
      by (auto simp add: Let_def)
    moreover have "\<not> finished s2 \<and> maxTrials s2 = maxTrials s \<and> targetReversals s2 = targetReversals s"
      using nf unfolding s2_def s1_def by (simp add: move_fields)
    ultimately show ?thesis by blast
  next
    case DECREASE_SIGNAL
    define s1 where "s1 = s\<lparr> trialsRun := trialsRun s + 1,
        responseHistory := responseHistory s @ [c],
        consecutiveDown := consecutiveDown s + 1, consecutiveUp := 0 \<rparr>"
    define s2 where "s2 = (if nDown s1 \<le> consecutiveDown s1 then move DOWN s1 else s1)"
    have "s' = check_finished s2"
      using assms(1) nf DECREASE_SIGNAL unfolding applyResponse_def s2_def s1_def
      by (auto simp add: Let_def)
    moreover have "\<not> finished s2 \<and> maxTrials s2 = maxTrials s \<and> targetReversals s2 = targetReversals s"
      using nf unfolding s2_def s1_def by (simp add: move_fields)
    ultimately show ?thesis by blast
  qed
qed

lemma applyResponse_caps:
  "applyResponse s c = Inr s' \<Longrightarrow> c \<noteq> REPEAT \<Longrightarrow>
   finished s' = (maxTrials s' \<le> trialsRun s' \<or> targetReversals s' \<le> reversalCount s')"
  using applyResponse_counted check_finished_iff by blast

lemma applyResponse_config:
  assumes "applyResponse s c = Inr s'"
  shows "maxTrials s' = maxTrials s \<and> targetReversals s' = targetReversals s"
proof (cases "c = REPEAT")
  case True
  with assms have "s' = s" by (simp add: applyResponse_repeat)
  then show ?thesis by simp
next
  case False
  from applyResponse_counted[OF assms False] show ?thesis
    by (auto simp: check_finished_fields)
qed

lemma apply_responses_caps:
  "apply_responses s cs = Inr s' \<Longrightarrow>
   finished s = (maxTrials s \<le> trialsRun s \<or> targetReversals s \<le> reversalCount s)
     \<or> (\<exists>c\<in>set cs. c \<noteq> REPEAT) \<Longrightarrow>
   finished s' = (maxTrials s' \<le> trialsRun s' \<or> targetReversals s' \<le> reversalCount s')"
proof (induction cs arbitrary: s)
  case Nil
  then show ?case by simp
next
  case (Cons c cs)
  from Cons.prems(1) obtain s1 where s1: "applyResponse s c = Inr s1"
    and rest: "apply_responses s1 cs = Inr s'"
    by (auto split: sum.splits)
  show ?case
  proof (cases "c = REPEAT")
    case True
    then have "s1 = s" using s1 by (simp add: applyResponse_repeat)
    with Cons.IH[OF rest] Cons.prems(2) True show ?thesis by auto
  next
    case False
    then have "finished s1 = (maxTrials s1 \<le> trialsRun s1 \<or> targetReversals s1 \<le> reversalCount s1)"
      using s1 applyResponse_caps by blast
    with Cons.IH[OF rest] show ?thesis by blast
  qed
qed

lemma apply_responses_config:
  "apply_responses s cs = Inr s' \<Longrightarrow>
   maxTrials s' = maxTrials s \<and> targetReversals s' = targetReversals s"
proof (induction cs arbitrary: s)
  case Nil
  then show ?case by simp
next
  case (Cons c cs)
  from Cons.prems obtain s1 where s1: "applyResponse s c = Inr s1"
    and rest: "apply_responses s1 cs = Inr s'"
    by (auto split: sum.splits)
  from applyResponse_config[OF s1] Cons.IH[OF rest] show ?case by simp
qed

text \<open>
  C3. After any run of responses applied to a staircase as constructed, with both caps
  positive (as for every staircase of the task) or with at least one response other
  than REPEAT in the run, \<open>finished\<close> holds exactly when the trial cap or the reversal
  cap is reached, either alone being enough. Once it holds, \<open>applyResponse\<close> and
  \<open>nextValue\<close> fail with \<open>InvalidStateError\<close> and leave the state as it is, so every
  state a further run reaches is finished too.
\<close>

theorem finished_exactly_at_caps:
  assumes run: "apply_responses
                  (new_staircase startVal step nReversals nTrials n_up n_down lo hi nm) cs = Inr s"
      and pos: "(0 < nTrials \<and> 0 < nReversals) \<or> (\<exists>c\<in>set cs. c \<noteq> REPEAT)"
  shows "(finished s \<longleftrightarrow> nTrials \<le> trialsRun s \<or> nReversals \<le> reversalCount s)
       \<and> (finished s \<longrightarrow>
            (\<forall>c. applyResponse s c = Inl InvalidStateError)
            \<and> nextValue s = Inl InvalidStateError
            \<and> (\<forall>cs' s'. apply_responses s cs' = Inr s' \<longrightarrow> finished s'))"
proof -
  let ?s0 = "new_staircase startVal step nReversals nTrials n_up n_down lo hi nm"
  have cfg: "maxTrials s = nTrials \<and> targetReversals s = nReversals"
    using apply_responses_config[OF run] by (simp add: new_staircase_def)
  have "finished ?s0 = (maxTrials ?s0 \<le> trialsRun ?s0 \<or> targetReversals ?s0 \<le> reversalCount ?s0)
        \<or> (\<exists>c\<in>set cs. c \<noteq> REPEAT)"
    using pos by (auto simp: new_staircase_def)
  from apply_responses_caps[OF run this] cfg
  have iff: "finished s \<longleftrightarrow> nTrials \<le> trialsRun s \<or> nReversals \<le> reversalCount s"
    by simp
  have stay: "finished s'" if "finished s" "apply_responses s cs' = Inr s'" for cs' s'
  proof (cases cs')
    case Nil
    with that show ?thesis by simp
  next
    case (Cons c rest)
    with that show ?thesis by (simp add: applyResponse_finished)
  qed
  show ?thesis using iff stay by (auto simp: applyResponse_finished nextValue_def)
qed

theorem finished_exactly_at_caps_witness:
  "\<exists>s. apply_responses
         (new_staircase (PyFloat 400) (PyInt 50) 3 15 2 2 (PyFloat 0) (PyFloat 1000) ''400_1'')
         (replicate 15 INCREASE_SIGNAL) = Inr s
       \<and> trialsRun s = 15 \<and> reversalCount s = 0 \<and> finished s
       \<and> applyResponse s DECREASE_SIGNAL = Inl InvalidStateError"
proof -
  let ?s15 = "\<lparr> name = ''400_1'', currentValue = PyFloat 750, startValue = PyFloat 400,
      minValue = PyFloat 0, maxValue = PyFloat 1000, stepSize = PyInt 50, direction = UP,
      consecutiveUp = 1, consecutiveDown = 0, nUp = 2, nDown = 2, reversalCount = 0,
      targetReversals = 3, maxTrials = 15, trialsRun = 15,
      responseHistory = replicate 15 INCREASE_SIGNAL, finished = True \<rparr>"
  have run: "apply_responses
         (new_staircase (PyFloat 400) (PyInt 50) 3 15 2 2 (PyFloat 0) (PyFloat 1000) ''400_1'')
         (replicate 15 INCREASE_SIGNAL) = Inr ?s15"
    by code_simp
  have pos: "(0 < (15::nat) \<and> 0 < (3::nat)) \<or> (\<exists>c\<in>set (replicate 15 INCREASE_SIGNAL). c \<noteq> REPEAT)"
    by simp
  from finished_exactly_at_caps[OF run pos]
  have "finished ?s15" and "applyResponse ?s15 DECREASE_SIGNAL = Inl InvalidStateError"
    by simp_all
  with run show ?thesis by (intro exI[of _ ?s15]) simp
qed

section \<open>Properties of a trial\<close>

lemma and_then_Done:
  "and_then m f = Done x w' \<Longrightarrow> \<exists>y w1. m = Done y w1 \<and> f y w1 = Done x w'"
  by (cases m) simp_all

lemma find_upt_less: "List.find P [0..<n] = Some r \<Longrightarrow> r < n"
  by (auto simp: find_Some_iff)

text \<open>One iteration of the response loop, with the tick it polls.\<close>

lemma response_loop_step:
  assumes "poll w = Some (t, w1)"
  shows "response_loop n w =
     (if ''escape'' \<in> set (keys t) then Quit (emit (KeysRead (keys t)) w1)
      else case (if pressed t
                 then List.find (\<lambda>i. map (\<lambda>i. i \<in> set (over t)) [0..<n] ! i) [0..<n]
                 else None) of
             None \<Rightarrow> response_loop n (emit (KeysRead (keys t)) w1)
           | Some r \<Rightarrow> Done r (emit (KeysRead (keys t)) w1))"
  using assms by (simp add: response_loop.simps[of n w] Let_def)

lemma response_loop_end: "poll w = None \<Longrightarrow> response_loop n w = Diverges w"
  by (simp add: response_loop.simps[of n w])

lemma response_loop_bound: "response_loop n w = Done r w' \<Longrightarrow> r < n"
proof (induction "length (ticks w)" arbitrary: w rule: less_induct)
  case less
  show ?case
  proof (cases "poll w")
    case None
    with less.prems show ?thesis by (simp add: response_loop_end)
  next
    case (Some p)
    obtain t w1 where p: "p = (t, w1)" by (cases p)
    with Some have pw: "poll w = Some (t, w1)" by simp
    let ?w2 = "emit (KeysRead (keys t)) w1"
    let ?resp = "if pressed t
                 then List.find (\<lambda>i. map (\<lambda>i. i \<in> set (over t)) [0..<n] ! i) [0..<n]
                 else None"
    have esc: "''escape'' \<notin> set (keys t)"
      using less.prems response_loop_step[OF pw, of n] by (auto split: if_splits)
    show ?thesis
    proof (cases ?resp)
      case None
      with less.prems response_loop_step[OF pw, of n] esc
      have "response_loop n ?w2 = Done r w'" by simp
      moreover have "length (ticks ?w2) < length (ticks w)" using poll_shorter[OF pw] by simp
      ultimately show ?thesis using less.hyps by blast
    next
      case (Some r')
      with less.prems response_loop_step[OF pw, of n] esc have "r' = r" by simp
      with Some have "List.find (\<lambda>i. map (\<lambda>i. i \<in> set (over t)) [0..<n] ! i) [0..<n] = Some r"
        by (auto split: if_splits)
      then show ?thesis by (rule find_upt_less)
    qed
  qed
qed

lemma hdt_trial_result:
  assumes "hdt_trial d ext dbg w = Done (label, code) w'"
  shows "(label, code) \<in> {(''before'', 0), (''same time'', - 1), (''after'', 1)}"
proof -
  from assms obtain u w1 where
    "and_then (response_loop (length buttons) (emit ResponseScreen w1)) code_response
       = Done (label, code) w'"
    unfolding hdt_trial_def Let_def by (blast dest: and_then_Done)
  then obtain response w2 where
    loop: "response_loop (length buttons) (emit ResponseScreen w1) = Done response w2"
    and res: "code_response response w2 = Done (label, code) w'"
    by (blast dest: and_then_Done)
  from response_loop_bound[OF loop] have "response < 3" by (simp add: buttons_def)
  then consider "response = 0" | "response = 1" | "response = 2" by linarith
  then show ?thesis
    using res by cases (simp_all add: code_response_def py_index_def buttons_def)
qed

text \<open>
  C10. Whatever either trial function returns is one of the three pairs of a button
  label and its code, (before, 0), (same time, -1), (after, 1); so the code is -1, the
  value the staircase loop tests before \<open>addResponse\<close>, exactly for the label
  "same time", and every other code is one \<open>addResponse\<close> accepts.
\<close>

theorem trial_returns_label_and_code:
  assumes "run_staircase_trial d ext dbg w = Done (label, code) w'
         \<or> run_set_delay_trial d ext dbg w = Done (label, code) w'"
  shows "(label, code) \<in> {(''before'', 0), (''same time'', - 1), (''after'', 1)}
       \<and> (code = - 1 \<longleftrightarrow> label = ''same time'')
       \<and> (code \<noteq> - 1 \<longrightarrow> decode_response code \<in> {Inr INCREASE_SIGNAL, Inr DECREASE_SIGNAL})"
proof -
  from assms have "hdt_trial d ext dbg w = Done (label, code) w'"
    by (auto simp: run_staircase_trial_def run_set_delay_trial_def)
  from hdt_trial_result[OF this] show ?thesis
    by (auto simp: decode_response_def)
qed

theorem trial_returns_label_and_code_witness:
  "run_staircase_trial (PyFloat 400) False False (script [idle, click 1])
     = Done (''same time'', - 1)
         \<lparr> ticks = [],
           trace = [TrialStarted (PyFloat 400), Waited 500, Waited 2000, ResponseScreen,
                    KeysRead [], KeysRead [], Waited 2000] \<rparr>
   \<and> (''same time'', - 1 :: int) \<in> {(''before'', 0), (''same time'', - 1), (''after'', 1)}"
proof -
  have run: "run_staircase_trial (PyFloat 400) False False (script [idle, click 1])
     = Done (''same time'', - 1)
         \<lparr> ticks = [],
           trace = [TrialStarted (PyFloat 400), Waited 500, Waited 2000, ResponseScreen,
                    KeysRead [], KeysRead [], Waited 2000] \<rparr>"
    by code_simp
  from trial_returns_label_and_code[OF disjI1, OF run] run show ?thesis by blast
qed

section \<open>What the polling loops add to the trace\<close>

text \<open>
  The events of polling and waiting. The loops that wait for input add only such
  events: no row, no serial write, no start of a trial.
\<close>

fun quiet :: "event \<Rightarrow> bool" where
  "quiet (KeysRead ks) = True"
| "quiet (SerialRead d) = True"
| "quiet (Waited ms) = True"
| "quiet ErrorMessage = True"
| "quiet e = False"

lemma rows_of_append: "rows_of (xs @ ys) = rows_of xs @ rows_of ys"
  by (induction xs rule: rows_of.induct) simp_all

lemma writes_of_append: "writes_of (xs @ ys) = writes_of xs @ writes_of ys"
  by (induction xs rule: writes_of.induct) simp_all

lemma trials_of_append: "trials_of (xs @ ys) = trials_of xs @ trials_of ys"
  by (induction xs rule: trials_of.induct) simp_all


lemma quiet_writes: "list_all quiet es \<Longrightarrow> writes_of es = []"
  by (induction es rule: writes_of.induct) simp_all

lemma quiet_trials: "list_all quiet es \<Longrightarrow> trials_of es = []"
  by (induction es rule: trials_of.induct) simp_all

lemma quiet_no_screen: "list_all quiet es \<Longrightarrow> ResponseScreen \<notin> set es"
  by (induction es) auto

lemma trace_emit [simp]: "trace (emit e w) = trace w @ [e]"
  by (simp add: emit_def)

lemma trace_core_wait [simp]: "trace (core_wait ms w) = trace w @ [Waited ms]"
  by (simp add: core_wait_def)

lemma poll_trace: "poll w = Some (t, w1) \<Longrightarrow> trace w1 = trace w"
  by (auto simp: poll_def split: list.splits)

lemma poll_ticks: "poll w = Some (t, w1) \<Longrightarrow> ticks w = t # ticks w1"
  by (auto simp: poll_def split: list.splits)

lemma response_loop_quiet:
  "\<exists>added. trace (world_of (response_loop n w)) = trace w @ added \<and> list_all quiet added"
proof (induction "length (ticks w)" arbitrary: w rule: less_induct)
  case less
  show ?case
  proof (cases "poll w")
    case None
    then show ?thesis by (simp add: response_loop_end)
  next
    case (Some p)
    obtain t w1 where p: "p = (t, w1)" by (cases p)
    with Some have pw: "poll w = Some (t, w1)" by simp
    let ?w2 = "emit (KeysRead (keys t)) w1"
    have tr: "trace ?w2 = trace w @ [KeysRead (keys t)]" using poll_trace[OF pw] by simp
    have "length (ticks ?w2) < length (ticks w)" using poll_shorter[OF pw] by simp
    from less.hyps[OF this] obtain added where
      rec: "trace (world_of (response_loop n ?w2)) = trace ?w2 @ added" "list_all quiet added"
      by blast
    have "trace (world_of (response_loop n w)) = trace w @ [KeysRead (keys t)]
          \<or> trace (world_of (response_loop n w)) = trace w @ KeysRead (keys t) # added"
      using response_loop_step[OF pw, of n] tr rec(1) by (auto split: option.splits)
    with rec(2) show ?thesis by auto
  qed
qed

section \<open>The exchange with the recorder\<close>

text \<open>
  A tick whose read is the acknowledgment, as the loop tests it, and the events of a
  poll that is not: the read, the check of the keys, the sleep of 0.1 s.
\<close>

definition acknowledged :: "tick \<Rightarrow> bool" where
  "acknowledged t =
     (case serial t of Text bytes \<Rightarrow> py_strip (take 6 bytes) = ''ENDED;'' | Undecodable \<Rightarrow> False)"

definition failed_poll :: "tick \<Rightarrow> event list" where
  "failed_poll t = [SerialRead (serial t), KeysRead (keys t), Waited 100]"

lemma wait_ended_end: "poll w = None \<Longrightarrow> wait_ended w = Diverges w"
  by (simp add: wait_ended.simps[of w])

lemma wait_ended_step:
  assumes "poll w = Some (t, w1)"
  shows "wait_ended w =
     (case serial t of
        Undecodable \<Rightarrow> Raised UnicodeDecodeError (emit (SerialRead (serial t)) w1)
      | Text bytes \<Rightarrow>
          if py_strip (take 6 bytes) = ''ENDED;'' then Done () (emit (SerialRead (serial t)) w1)
          else if ''escape'' \<in> set (keys t)
               then Quit (emit (KeysRead (keys t)) (emit (SerialRead (serial t)) w1))
               else wait_ended
                      (core_wait 100 (emit (KeysRead (keys t)) (emit (SerialRead (serial t)) w1))))"
  using assms by (simp add: wait_ended.simps[of w] Let_def split: serial_data.splits)

lemma wait_ended_quiet:
  "\<exists>added. trace (world_of (wait_ended w)) = trace w @ added \<and> list_all quiet added"
proof (induction "length (ticks w)" arbitrary: w rule: less_induct)
  case less
  show ?case
  proof (cases "poll w")
    case None
    then show ?thesis by (simp add: wait_ended_end)
  next
    case (Some p)
    obtain t w1 where p: "p = (t, w1)" by (cases p)
    with Some have pw: "poll w = Some (t, w1)" by simp
    let ?w4 = "core_wait 100 (emit (KeysRead (keys t)) (emit (SerialRead (serial t)) w1))"
    have "length (ticks ?w4) < length (ticks w)" using poll_shorter[OF pw] by simp
    from less.hyps[OF this] obtain added where
      rec: "trace (world_of (wait_ended ?w4)) = trace ?w4 @ added" "list_all quiet added"
      by blast
    have "trace (world_of (wait_ended w)) = trace w @ [SerialRead (serial t)]
        \<or> trace (world_of (wait_ended w)) = trace w @ [SerialRead (serial t), KeysRead (keys t)]
        \<or> trace (world_of (wait_ended w)) = trace w @ failed_poll t @ added"
      using wait_ended_step[OF pw] poll_trace[OF pw] rec(1)
      by (auto simp: failed_poll_def split: serial_data.splits)
    with rec(2) show ?thesis by (auto simp: failed_poll_def)
  qed
qed

lemma wait_ended_Done:
  "wait_ended w = Done x w' \<Longrightarrow>
   \<exists>ts t. ticks w = ts @ t # ticks w'
     \<and> (\<forall>u\<in>set ts. \<not> acknowledged u \<and> ''escape'' \<notin> set (keys u))
     \<and> acknowledged t
     \<and> trace w' = trace w @ concat (map failed_poll ts) @ [SerialRead (serial t)]"
proof (induction "length (ticks w)" arbitrary: w rule: less_induct)
  case less
  show ?case
  proof (cases "poll w")
    case None
    with less.prems show ?thesis by (simp add: wait_ended_end)
  next
    case (Some p)
    obtain t w1 where p: "p = (t, w1)" by (cases p)
    with Some have pw: "poll w = Some (t, w1)" by simp
    let ?w4 = "core_wait 100 (emit (KeysRead (keys t)) (emit (SerialRead (serial t)) w1))"
    show ?thesis
    proof (cases "acknowledged t")
      case True
      then have "wait_ended w = Done () (emit (SerialRead (serial t)) w1)"
        using wait_ended_step[OF pw] by (auto simp: acknowledged_def split: serial_data.splits)
      with less.prems have w': "w' = emit (SerialRead (serial t)) w1" by simp
      have "ticks w = [] @ t # ticks w'" using poll_ticks[OF pw] w' by simp
      moreover have "trace w' = trace w @ concat (map failed_poll []) @ [SerialRead (serial t)]"
        using poll_trace[OF pw] w' by simp
      ultimately show ?thesis using True by (intro exI[of _ "[]"] exI[of _ t]) simp
    next
      case False
      with less.prems wait_ended_step[OF pw]
      have esc: "''escape'' \<notin> set (keys t)" and rec: "wait_ended ?w4 = Done x w'"
        by (auto simp: acknowledged_def split: serial_data.splits if_splits)
      have "length (ticks ?w4) < length (ticks w)" using poll_shorter[OF pw] by simp
      from less.hyps[OF this rec] obtain ts t' where
        ih: "ticks ?w4 = ts @ t' # ticks w'"
            "\<forall>u\<in>set ts. \<not> acknowledged u \<and> ''escape'' \<notin> set (keys u)"
            "acknowledged t'"
            "trace w' = trace ?w4 @ concat (map failed_poll ts) @ [SerialRead (serial t')]"
        by blast
      have "ticks w = (t # ts) @ t' # ticks w'" using poll_ticks[OF pw] ih(1) by simp
      moreover have "\<forall>u\<in>set (t # ts). \<not> acknowledged u \<and> ''escape'' \<notin> set (keys u)"
        using ih(2) False esc by simp
      moreover have "trace w' = trace w @ concat (map failed_poll (t # ts)) @ [SerialRead (serial t')]"
        using ih(4) poll_trace[OF pw] by (simp add: failed_poll_def)
      ultimately show ?thesis using ih(3) by blast
    qed
  qed
qed

lemma dropWhile_same_length: "length (dropWhile P xs) = length xs \<Longrightarrow> dropWhile P xs = xs"
proof (cases xs)
  case Nil
  then show ?thesis by simp
next
  case (Cons a ys)
  assume eq: "length (dropWhile P xs) = length xs"
  show ?thesis
  proof (cases "P a")
    case True
    with Cons eq have "length (dropWhile P ys) = Suc (length ys)" by simp
    with length_dropWhile_le[of P ys] show ?thesis by simp
  next
    case False
    with Cons show ?thesis by simp
  qed
qed

lemma length_py_strip_le: "length (py_strip s) \<le> length s"
proof -
  have "length (py_strip s) \<le> length (dropWhile py_isspace s)"
    unfolding py_strip_def using length_dropWhile_le[of py_isspace "rev (dropWhile py_isspace s)"]
    by simp
  also have "\<dots> \<le> length s" by (rule length_dropWhile_le)
  finally show ?thesis .
qed

lemma py_strip_same_length: "length (py_strip s) = length s \<Longrightarrow> py_strip s = s"
proof -
  assume eq: "length (py_strip s) = length s"
  have a: "length (py_strip s) \<le> length (dropWhile py_isspace s)"
    unfolding py_strip_def using length_dropWhile_le[of py_isspace "rev (dropWhile py_isspace s)"]
    by simp
  have b: "length (dropWhile py_isspace s) \<le> length s" by (rule length_dropWhile_le)
  from eq a b have "dropWhile py_isspace s = s" by (intro dropWhile_same_length) simp
  moreover from this eq have "dropWhile py_isspace (rev s) = rev s"
    unfolding py_strip_def by (intro dropWhile_same_length) simp
  ultimately show ?thesis by (simp add: py_strip_def)
qed

text \<open>A read of at most six bytes strips to the six bytes of the token only if it is the token.\<close>

lemma acknowledged_exact:
  "acknowledged t \<longleftrightarrow> (\<exists>bytes. serial t = Text bytes \<and> take 6 bytes = ''ENDED;'')"
proof
  assume "acknowledged t"
  then obtain bytes where b: "serial t = Text bytes" and s: "py_strip (take 6 bytes) = ''ENDED;''"
    by (auto simp: acknowledged_def split: serial_data.splits)
  have "length (take 6 bytes) \<le> 6" by simp
  moreover have "length (py_strip (take 6 bytes)) = 6" using s by simp
  ultimately have "length (py_strip (take 6 bytes)) = length (take 6 bytes)"
    using length_py_strip_le[of "take 6 bytes"] by linarith
  then have "py_strip (take 6 bytes) = take 6 bytes" by (rule py_strip_same_length)
  with b s show "\<exists>bytes. serial t = Text bytes \<and> take 6 bytes = ''ENDED;''" by simp
next
  assume "\<exists>bytes. serial t = Text bytes \<and> take 6 bytes = ''ENDED;''"
  then obtain bytes where b: "serial t = Text bytes" and s: "take 6 bytes = ''ENDED;''" by blast
  have "py_strip ''ENDED;'' = ''ENDED;''" by code_simp
  with b s show "acknowledged t" by (simp add: acknowledged_def)
qed

text \<open>What the end of a trial, from the response screen on, adds to the trace.\<close>

lemma response_stage_trace:
  fixes k :: "nat \<Rightarrow> world \<Rightarrow> (string \<times> int) outcome"
  assumes k: "\<And>r w2. world_of (k r w2) = core_wait 2000 w2"
  shows "\<exists>added. trace (world_of (and_then (response_loop n (emit ResponseScreen w1)) k))
                = trace w1 @ ResponseScreen # added \<and> list_all quiet added"
proof -
  obtain added where
    a: "trace (world_of (response_loop n (emit ResponseScreen w1)))
          = trace (emit ResponseScreen w1) @ added" "list_all quiet added"
    using response_loop_quiet by blast
  show ?thesis
  proof (cases "response_loop n (emit ResponseScreen w1)")
    case (Done r w2)
    with a k[of r w2] have "trace (world_of (and_then (response_loop n (emit ResponseScreen w1)) k))
       = trace w1 @ ResponseScreen # (added @ [Waited 2000])" by simp
    with a(2) show ?thesis by (intro exI[of _ "added @ [Waited 2000]"]) simp
  next
    case (Quit w2)
    with a show ?thesis by (intro exI[of _ added]) simp
  next
    case (Raised e w2)
    with a show ?thesis by (intro exI[of _ added]) simp
  next
    case (Diverges w2)
    with a show ?thesis by (intro exI[of _ added]) simp
  qed
qed

lemma world_of_code_response: "world_of (code_response r w2) = core_wait 2000 w2"
  by (simp add: code_response_def Let_def split: sum.splits)

lemma hdt_trial_unfold:
  "hdt_trial d ext dbg w =
     and_then
       (if ext then
          and_then
            (wait_ended
               (emit (SerialWrite start_command)
                  (emit (SerialWrite (delay_command d)) (core_wait 500 (emit (TrialStarted d) w)))))
            (\<lambda>_ w1. Done () (core_wait 1000 w1))
        else Done () (core_wait 2000 (core_wait 500 (emit (TrialStarted d) w))))
       (\<lambda>_ w1. and_then (response_loop (length buttons) (emit ResponseScreen w1)) code_response)"
  unfolding hdt_trial_def Let_def by (rule refl)


text \<open>
  The trace of a trial with the recorder: either the acknowledgment is read after polls
  that failed, and the response screen follows; or the trial ends in the exchange and
  the response screen is never shown.
\<close>

lemma hdt_trial_trace_recorder:
  "(\<exists>ts t rest added.
       ticks w = ts @ t # rest
     \<and> (\<forall>u\<in>set ts. \<not> acknowledged u \<and> ''escape'' \<notin> set (keys u))
     \<and> acknowledged t
     \<and> list_all quiet added
     \<and> trace (world_of (hdt_trial d True dbg w))
         = trace w @ [TrialStarted d, Waited 500, SerialWrite (delay_command d),
                      SerialWrite start_command]
             @ concat (map failed_poll ts)
             @ [SerialRead (serial t), Waited 1000, ResponseScreen] @ added)
   \<or> (\<exists>added.
       list_all quiet added
     \<and> trace (world_of (hdt_trial d True dbg w))
         = trace w @ [TrialStarted d, Waited 500, SerialWrite (delay_command d),
                      SerialWrite start_command] @ added)"
proof -
  let ?wA = "emit (SerialWrite start_command)
               (emit (SerialWrite (delay_command d)) (core_wait 500 (emit (TrialStarted d) w)))"
  have trA: "trace ?wA = trace w @ [TrialStarted d, Waited 500, SerialWrite (delay_command d),
                      SerialWrite start_command]" by simp
  have tkA: "ticks ?wA = ticks w" by simp
  show ?thesis
  proof (cases "wait_ended ?wA")
    case (Done x w1)
    from wait_ended_Done[OF Done] obtain ts t where
      d: "ticks ?wA = ts @ t # ticks w1"
         "\<forall>u\<in>set ts. \<not> acknowledged u \<and> ''escape'' \<notin> set (keys u)"
         "acknowledged t"
         "trace w1 = trace ?wA @ concat (map failed_poll ts) @ [SerialRead (serial t)]"
      by blast
    obtain added where
      a: "trace (world_of (and_then (response_loop (length buttons)
              (emit ResponseScreen (core_wait 1000 w1))) code_response))
           = trace (core_wait 1000 w1) @ ResponseScreen # added" "list_all quiet added"
      using response_stage_trace[of code_response, OF world_of_code_response] by blast
    have "trace (world_of (hdt_trial d True dbg w))
         = trace w @ [TrialStarted d, Waited 500, SerialWrite (delay_command d),
                      SerialWrite start_command]
             @ concat (map failed_poll ts)
             @ [SerialRead (serial t), Waited 1000, ResponseScreen] @ added"
      using Done a(1) d(4) trA by (simp add: hdt_trial_unfold)
    with d(1-3) a(2) tkA show ?thesis by (intro disjI1) (metis (no_types, lifting))
  next
    case (Quit w1)
    obtain added where "trace (world_of (wait_ended ?wA)) = trace ?wA @ added" "list_all quiet added"
      using wait_ended_quiet by blast
    with Quit trA show ?thesis by (intro disjI2 exI[of _ added]) (simp add: hdt_trial_unfold)
  next
    case (Raised e w1)
    obtain added where "trace (world_of (wait_ended ?wA)) = trace ?wA @ added" "list_all quiet added"
      using wait_ended_quiet by blast
    with Raised trA show ?thesis by (intro disjI2 exI[of _ added]) (simp add: hdt_trial_unfold)
  next
    case (Diverges w1)
    obtain added where "trace (world_of (wait_ended ?wA)) = trace ?wA @ added" "list_all quiet added"
      using wait_ended_quiet by blast
    with Diverges trA show ?thesis by (intro disjI2 exI[of _ added]) (simp add: hdt_trial_unfold)
  qed
qed


lemma str_int_no_point: "CHR ''.'' \<notin> set (str_int n)"
proof -
  have d: "digit_char (k mod 10) \<noteq> CHR ''.''" for k
  proof
    assume "digit_char (k mod 10) = CHR ''.''"
    then have "(of_char (digit_char (k mod 10)) :: nat) = of_char CHR ''.''" by simp
    moreover have "(48 + k mod 10) mod 256 = 48 + k mod 10" by (intro mod_less) simp
    ultimately show False by (simp add: digit_char_def)
  qed
  have n: "CHR ''.'' \<notin> set (str_nat k)" for k
  proof (induction k rule: str_nat.induct)
    case (1 k)
    show ?case
    proof (cases "k < 10")
      case True
      then have "k mod 10 = k" by simp
      with d[of k] True show ?thesis by (subst str_nat.simps) simp
    next
      case False
      with "1.IH" d[of k] show ?thesis by (subst str_nat.simps) simp
    qed
  qed
  show ?thesis using n by (simp add: str_int_def)
qed

text \<open>
  C5, as amended. In a trial with the recorder, the texts written to the serial port are
  exactly \<^verbatim>\<open>'DELAY' + str(current_delay) + ';'\<close> and then \<^verbatim>\<open>START;\<close>, whatever the
  outcome of the trial. \<^verbatim>\<open>str\<close> gives the decimal integer for an int delay (training)
  and the decimal integer followed by \<^verbatim>\<open>.0\<close> for a float delay (staircases), which is
  never the text of an integer. If the response screen is shown at all, then before it
  the port was read until a read of at most six bytes was the token \<^verbatim>\<open>ENDED;\<close>
  (the stripped text equals the token only if the bytes do); every read before that
  one failed the test, was followed by a check of the keys that found no ESCAPE and by
  a sleep of 0.1 s.
\<close>

theorem recorder_exchange:
  assumes "r = run_staircase_trial d True dbg w \<or> r = run_set_delay_trial d True dbg w"
  shows "\<exists>added. trace (world_of r) = trace w @ added
       \<and> writes_of added = [''DELAY'' @ py_str d @ '';'', ''START;'']
       \<and> py_str d = str_int (num_val d) @ (if is_float d then ''.0'' else [])
       \<and> (is_float d \<longrightarrow> (\<forall>n. py_str d \<noteq> str_int n))
       \<and> (ResponseScreen \<in> set added \<longrightarrow>
            (\<exists>ts t rest tail.
                ticks w = ts @ t # rest
              \<and> (\<forall>u\<in>set ts. \<not> acknowledged u \<and> ''escape'' \<notin> set (keys u))
              \<and> (\<exists>bytes. serial t = Text bytes \<and> take 6 bytes = ''ENDED;'')
              \<and> added = [TrialStarted d, Waited 500, SerialWrite (''DELAY'' @ py_str d @ '';''),
                          SerialWrite ''START;'']
                         @ concat (map failed_poll ts)
                         @ [SerialRead (serial t), Waited 1000, ResponseScreen] @ tail))"
proof -
  have r: "r = hdt_trial d True dbg w"
    using assms by (auto simp: run_staircase_trial_def run_set_delay_trial_def)
  have str: "py_str d = str_int (num_val d) @ (if is_float d then ''.0'' else [])"
    by (cases d) simp_all
  have nonint: "is_float d \<longrightarrow> (\<forall>n. py_str d \<noteq> str_int n)"
  proof (intro impI allI)
    fix n assume "is_float d"
    then have "CHR ''.'' \<in> set (py_str d)" by (cases d) simp_all
    with str_int_no_point[of n] show "py_str d \<noteq> str_int n" by auto
  qed
  from hdt_trial_trace_recorder[of w d dbg] show ?thesis
  proof (elim disjE exE conjE)
    fix ts t rest added
    assume h: "ticks w = ts @ t # rest"
      "\<forall>u\<in>set ts. \<not> acknowledged u \<and> ''escape'' \<notin> set (keys u)"
      "acknowledged t" "list_all quiet added"
      "trace (world_of (hdt_trial d True dbg w))
         = trace w @ [TrialStarted d, Waited 500, SerialWrite (delay_command d),
                      SerialWrite start_command]
             @ concat (map failed_poll ts)
             @ [SerialRead (serial t), Waited 1000, ResponseScreen] @ added"
    let ?added = "[TrialStarted d, Waited 500, SerialWrite (''DELAY'' @ py_str d @ '';''),
                   SerialWrite ''START;'']
                  @ concat (map failed_poll ts)
                  @ [SerialRead (serial t), Waited 1000, ResponseScreen] @ added"
    have polls: "writes_of (concat (map failed_poll ts)) = []"
      by (induction ts) (simp_all add: failed_poll_def writes_of_append)
    have "trace (world_of r) = trace w @ ?added"
      using h(5) r by (simp add: delay_command_def start_command_def)
    moreover have "writes_of ?added = [''DELAY'' @ py_str d @ '';'', ''START;'']"
      using polls quiet_writes[OF h(4)] by (simp add: writes_of_append)
    moreover have "\<exists>bytes. serial t = Text bytes \<and> take 6 bytes = ''ENDED;''"
      using h(3) acknowledged_exact by blast
    ultimately show ?thesis using str nonint h(1,2) by (intro exI[of _ ?added]) blast
  next
    fix added
    assume h: "list_all quiet added"
      "trace (world_of (hdt_trial d True dbg w))
         = trace w @ [TrialStarted d, Waited 500, SerialWrite (delay_command d),
                      SerialWrite start_command] @ added"
    let ?added = "[TrialStarted d, Waited 500, SerialWrite (''DELAY'' @ py_str d @ '';''),
                   SerialWrite ''START;''] @ added"
    have "trace (world_of r) = trace w @ ?added"
      using h(2) r by (simp add: delay_command_def start_command_def)
    moreover have "writes_of ?added = [''DELAY'' @ py_str d @ '';'', ''START;'']"
      using quiet_writes[OF h(1)] by simp
    moreover have "ResponseScreen \<notin> set ?added" using quiet_no_screen[OF h(1)] by simp
    ultimately show ?thesis using str nonint by (intro exI[of _ ?added]) blast
  qed
qed

theorem recorder_exchange_witness:
  "trace (world_of (run_staircase_trial (PyFloat 400) True False
              (script [arrives '' '', arrives ''ENDED;'', click 2])))
     = [TrialStarted (PyFloat 400), Waited 500, SerialWrite ''DELAY400.0;'', SerialWrite ''START;'',
        SerialRead (Text '' ''), KeysRead [], Waited 100,
        SerialRead (Text ''ENDED;''), Waited 1000, ResponseScreen,
        KeysRead [], Waited 2000]
   \<and> (\<exists>ts t rest.
         [arrives '' '', arrives ''ENDED;'', click 2] = ts @ t # rest
       \<and> (\<exists>bytes. serial t = Text bytes \<and> take 6 bytes = ''ENDED;''))"
proof -
  let ?w = "script [arrives '' '', arrives ''ENDED;'', click 2]"
  let ?r = "run_staircase_trial (PyFloat 400) True False ?w"
  have tr: "trace (world_of ?r)
     = [TrialStarted (PyFloat 400), Waited 500, SerialWrite ''DELAY400.0;'', SerialWrite ''START;'',
        SerialRead (Text '' ''), KeysRead [], Waited 100,
        SerialRead (Text ''ENDED;''), Waited 1000, ResponseScreen,
        KeysRead [], Waited 2000]"
    by code_simp
  from recorder_exchange[of ?r "PyFloat 400" False ?w] obtain added where
    a: "trace (world_of ?r) = trace ?w @ added"
    and b: "ResponseScreen \<in> set added \<longrightarrow>
            (\<exists>ts t rest tail.
                ticks ?w = ts @ t # rest
              \<and> (\<forall>u\<in>set ts. \<not> acknowledged u \<and> ''escape'' \<notin> set (keys u))
              \<and> (\<exists>bytes. serial t = Text bytes \<and> take 6 bytes = ''ENDED;'')
              \<and> added = [TrialStarted (PyFloat 400), Waited 500,
                          SerialWrite (''DELAY'' @ py_str (PyFloat 400) @ '';''),
                          SerialWrite ''START;'']
                         @ concat (map failed_poll ts)
                         @ [SerialRead (serial t), Waited 1000, ResponseScreen] @ tail)"
    by blast
  from a tr have "ResponseScreen \<in> set added" by (simp add: script_def)
  with b have "\<exists>ts t rest.
         ticks ?w = ts @ t # rest
       \<and> (\<exists>bytes. serial t = Text bytes \<and> take 6 bytes = ''ENDED;'')" by blast
  with tr show ?thesis by (simp add: script_def)
qed

text \<open>
  The first trial of the first staircase of the task, with the recorder attached: the
  delay is written with a decimal point, not as the integer 400.
\<close>

theorem staircase_delay_written_as_float:
  "writes_of (trace (world_of (trials_loop True False [0] (staircase_set ! 0)
      (script [idle, arrives ''ENDED;'', click 0, press [''5''], press [''return'']]))))
     = [''DELAY400.0;'', ''START;'']
   \<and> ''DELAY400.0;'' \<noteq> ''DELAY'' @ str_int 400 @ '';''"
  by code_simp

section \<open>Properties of the confidence rating\<close>

lemma handle_keys_Returned:
  "handle_keys input_text ks w = Returned n w' \<Longrightarrow> 0 \<le> n \<and> n \<le> 100"
proof (induction ks arbitrary: input_text w)
  case Nil
  then show ?case by simp
next
  case (Cons key rest)
  show ?case
  proof (cases "key = ''return''")
    case True
    show ?thesis
    proof (cases "py_isdigit input_text \<and> 0 \<le> py_int input_text \<and> py_int input_text \<le> 100")
      case True
      with \<open>key = ''return''\<close> Cons.prems show ?thesis by auto
    next
      case False
      with \<open>key = ''return''\<close> Cons.prems
      have "handle_keys input_text rest (emit ErrorMessage w) = Returned n w'" by auto
      then show ?thesis by (rule Cons.IH)
    qed
  next
    case False
    with Cons.prems obtain t' where "handle_keys t' rest w = Returned n w'"
      by (auto split: if_splits option.splits)
    then show ?thesis by (rule Cons.IH)
  qed
qed

lemma input_loop_Done: "input_loop input_text w = Done n w' \<Longrightarrow> 0 \<le> n \<and> n \<le> 100"
proof (induction input_text w rule: input_loop.induct)
  case (1 input_text w)
  show ?case
  proof (cases "waitKeys keyList w")
    case None
    with "1.prems" show ?thesis by (simp add: input_loop.simps[of input_text w])
  next
    case (Some p)
    obtain ks w1 where p: "p = (ks, w1)" by (cases p)
    show ?thesis
    proof (cases "handle_keys input_text ks w1")
      case (Returned m w2)
      with "1.prems" Some p have "m = n" by (simp add: input_loop.simps[of input_text w])
      with Returned handle_keys_Returned show ?thesis by blast
    next
      case (Quitting w2)
      with "1.prems" Some p show ?thesis by (simp add: input_loop.simps[of input_text w])
    next
      case (Typed t' w2)
      with "1.prems" Some p have "input_loop t' w2 = Done n w'"
        by (simp add: input_loop.simps[of input_text w])
      with "1.IH"[OF Some p[symmetric] Typed] show ?thesis by simp
    qed
  qed
qed

lemma input_loop_not_Raised: "input_loop input_text w \<noteq> Raised e w'"
proof (induction input_text w rule: input_loop.induct)
  case (1 input_text w)
  show ?case
  proof (cases "waitKeys keyList w")
    case None
    then show ?thesis by (simp add: input_loop.simps[of input_text w])
  next
    case (Some p)
    obtain ks w1 where p: "p = (ks, w1)" by (cases p)
    show ?thesis
    proof (cases "handle_keys input_text ks w1")
      case (Returned m w2)
      with Some p show ?thesis by (simp add: input_loop.simps[of input_text w])
    next
      case (Quitting w2)
      with Some p show ?thesis by (simp add: input_loop.simps[of input_text w])
    next
      case (Typed t' w2)
      with Some p have "input_loop input_text w = input_loop t' w2"
        by (simp add: input_loop.simps[of input_text w])
      with "1.IH"[OF Some p[symmetric] Typed] show ?thesis by simp
    qed
  qed
qed

lemma py_int_nonneg: "0 \<le> py_int s"
  by (simp add: py_int_def)

text \<open>
  C6. Whatever \<open>get_numeric_input\<close> returns is an integer from 0 to 100, and the call
  never ends in an exception. When RETURN is pressed on a text that is empty, has a
  character that is no digit, or reads as more than 100, the error message is shown,
  the text is kept and the keys pressed after it are handled as before; when RETURN
  was the only key, the prompt is simply repeated.
\<close>

theorem numeric_input_valid:
  "(get_numeric_input w = Done n w' \<longrightarrow> 0 \<le> n \<and> n \<le> 100)
   \<and> (\<forall>e w''. get_numeric_input w \<noteq> Raised e w'')
   \<and> (input_text = [] \<or> \<not> list_all is_digit_char input_text \<or> 100 < py_int input_text \<longrightarrow>
        handle_keys input_text (''return'' # rest) w1
          = handle_keys input_text rest (emit ErrorMessage w1)
        \<and> (waitKeys keyList w = Some ([''return''], w1) \<longrightarrow>
             input_loop input_text w = input_loop input_text (emit ErrorMessage w1)))"
proof (intro conjI impI allI)
  assume "get_numeric_input w = Done n w'"
  then show "0 \<le> n" "n \<le> 100" using input_loop_Done by (auto simp: get_numeric_input_def)
next
  fix e w''
  show "get_numeric_input w \<noteq> Raised e w''"
    using input_loop_not_Raised by (simp add: get_numeric_input_def)
next
  assume bad: "input_text = [] \<or> \<not> list_all is_digit_char input_text \<or> 100 < py_int input_text"
  then have inv: "\<not> (py_isdigit input_text \<and> 0 \<le> py_int input_text \<and> py_int input_text \<le> 100)"
    by (auto simp: py_isdigit_def)
  then show step: "handle_keys input_text (''return'' # rest) w1
          = handle_keys input_text rest (emit ErrorMessage w1)"
    by auto
  assume "waitKeys keyList w = Some ([''return''], w1)"
  then show "input_loop input_text w = input_loop input_text (emit ErrorMessage w1)"
    using inv by (auto simp add: input_loop.simps[of input_text w])
qed

theorem numeric_input_valid_witness:
  "get_numeric_input
     (script [press [''return''], press [''num_1'', ''0'', ''0'', ''0''], press [''backspace'', ''return'']])
     = Done 10 \<lparr> ticks = [],
                 trace = [KeysRead [''return''], ErrorMessage,
                          KeysRead [''num_1'', ''0'', ''0'', ''0''],
                          KeysRead [''backspace'', ''return'']] \<rparr>
   \<and> (0::int) \<le> 10 \<and> (10::int) \<le> 100
   \<and> handle_keys [] [''return''] (script []) = Typed [] (emit ErrorMessage (script []))
   \<and> 100 < py_int ''101''
   \<and> handle_keys ''101'' [''return'', ''backspace''] (script [])
       = Typed ''10'' (emit ErrorMessage (script []))"
proof -
  let ?w = "script [press [''return''], press [''num_1'', ''0'', ''0'', ''0''], press [''backspace'', ''return'']]"
  let ?w' = "\<lparr> ticks = [],
                 trace = [KeysRead [''return''], ErrorMessage,
                          KeysRead [''num_1'', ''0'', ''0'', ''0''],
                          KeysRead [''backspace'', ''return'']] \<rparr>"
  have run: "get_numeric_input ?w = Done 10 ?w'" by code_simp
  have big: "100 < py_int ''101''" by code_simp
  from numeric_input_valid[of ?w 10 ?w' "[]" "[]" "script []"] run
  have a: "(0::int) \<le> 10 \<and> (10::int) \<le> 100"
    and b: "handle_keys [] [''return''] (script []) = handle_keys [] [] (emit ErrorMessage (script []))"
    by simp_all
  from numeric_input_valid[of ?w 10 ?w' "''101''" "[''backspace'']" "script []"] big
  have c: "handle_keys ''101'' [''return'', ''backspace''] (script [])
            = handle_keys ''101'' [''backspace''] (emit ErrorMessage (script []))"
    by blast
  have d: "handle_keys ''101'' [''backspace''] (emit ErrorMessage (script []))
            = Typed ''10'' (emit ErrorMessage (script []))"
    by simp
  from run a b c d big show ?thesis by simp
qed

section \<open>What the other loops add to the trace\<close>










section \<open>Properties of the post-task questions\<close>





section \<open>What a trial and the again-or-stop question add to the trace\<close>














section \<open>Properties of the training phase\<close>








section \<open>Properties of the staircase phase\<close>





text \<open>The calls of \<^verbatim>\<open>staircase.addResponse\<close> in a trace: the codes passed, in order.\<close>

fun adds_of :: "event list \<Rightarrow> int list" where
  "adds_of [] = []"
| "adds_of (AddResponse c # es) = c # adds_of es"
| "adds_of (e # es) = adds_of es"

lemma adds_of_append: "adds_of (xs @ ys) = adds_of xs @ adds_of ys"
  by (induction xs rule: adds_of.induct) simp_all

















section \<open>ESCAPE at the top of a trial loop\<close>

text \<open>
  C4. The four staircases of the task. ESCAPE is seen at the first check of the first
  staircase: the file and the window are closed and the trial loop of that staircase
  is left. The session does not end there: the operator is asked to continue, and once
  RETURN is pressed a trial of the second staircase is run and logged. (Here ESCAPE is
  pressed again at each later check, which only leaves each staircase's loop in turn;
  the call returns.) The same key seen by the wait for the operator ends the session.
\<close>

theorem escape_leaves_only_the_trial_loop:
  "(case staircases_loop False False 4 0 staircase_set
           (script [press [''escape''], press [''return''],
                    idle, click 0, press [''5''], press [''return''],
                    press [''escape''], press [''return''],
                    press [''escape''], press [''return''], press [''escape'']]) of
      Done stairs w' \<Rightarrow>
        take 3 (trace w') = [KeysRead [''escape''], FileClosed, WindowClosed]
        \<and> trials_of (drop 3 (trace w')) = [PyFloat 100]
        \<and> rows_of (drop 3 (trace w'))
            = [[S ''100_1'', I 1, N (PyFloat 100), S ''before'', I 0, I 5]]
        \<and> map trialsRun stairs = [0, 1, 0, 0]
    | Quit w' \<Rightarrow> False
    | Raised e w' \<Rightarrow> False
    | Diverges w' \<Rightarrow> False)
   \<and> wait_for_key_press (script [press [''escape'']])
       = Quit \<lparr> ticks = [], trace = [KeysRead [''escape'']] \<rparr>"
  by code_simp

section \<open>The suffix after z\<close>

text \<open>
  C7. A directory that holds the base file and the file with suffix z: the name chosen
  has the suffix \<^verbatim>\<open>{\<close>, which is no letter; and once that file exists too, the same
  name is chosen again, the name of a file of an earlier session.
\<close>

theorem suffix_after_z_is_no_letter:
  "csv_file_name ''001'' [''sub-001_s_hdt.tsv'', ''sub-001_s_hdt_z.tsv'']
     = ''sub-001_s_hdt_{.tsv''
   \<and> \<not> py_isalpha CHR ''{''
   \<and> csv_file_name ''001''
        [''sub-001_s_hdt.tsv'', ''sub-001_s_hdt_z.tsv'', ''sub-001_s_hdt_{.tsv'']
     = ''sub-001_s_hdt_{.tsv''"
  by code_simp

section \<open>A repeated trial and the number of trials of a staircase\<close>

text \<open>
  One iteration of the trial loop without the recorder, in which nothing is pressed at
  the check, the button "after" (or "same time") is clicked at once and the confidence
  5 is entered and confirmed.
\<close>

lemmas run_defs =
  getKeys_def poll_def emit_def core_wait_def idle_def click_def press_def nextValue_def
  run_staircase_trial_def hdt_trial_def Let_def response_loop.simps buttons_def
  code_response_def py_index_def get_numeric_input_def input_loop.simps waitKeys.simps
  keyList_def digits_def keypad_mapping_def py_isdigit_def py_int_def is_digit_char_def
  digit_val_def add_response_def

lemma iteration_after:
  "trials_loop False False (t # rest) st
      \<lparr> ticks = idle # click 2 # press [''5''] # press [''return''] # later, trace = tr \<rparr>
   = (if finished st
      then Done st \<lparr> ticks = click 2 # press [''5''] # press [''return''] # later,
                     trace = tr @ [KeysRead []] \<rparr>
      else case addResponse st 1 of
             Inl e \<Rightarrow>
               Raised (StaircaseError e)
                 \<lparr> ticks = press [''5''] # press [''return''] # later,
                   trace = tr @ [KeysRead [], TrialStarted (currentValue st), Waited 500,
                                 Waited 2000, ResponseScreen, KeysRead [], Waited 2000,
                                 AddResponse 1] \<rparr>
           | Inr st' \<Rightarrow>
               trials_loop False False rest st'
                 \<lparr> ticks = later,
                   trace = tr @ [KeysRead [], TrialStarted (currentValue st), Waited 500,
                                 Waited 2000, ResponseScreen, KeysRead [], Waited 2000,
                                 AddResponse 1,
                                 KeysRead [''5''], KeysRead [''return''],
                                 RowWritten [S (name st), I (int t + 1), N (currentValue st),
                                             S ''after'', I 1, I 5]] \<rparr>)"
  by (simp add: run_defs split: sum.splits)

lemma iteration_same:
  "trials_loop False False (t # rest) st
      \<lparr> ticks = idle # click 1 # press [''5''] # press [''return''] # later, trace = tr \<rparr>
   = (if finished st
      then Done st \<lparr> ticks = click 1 # press [''5''] # press [''return''] # later,
                     trace = tr @ [KeysRead []] \<rparr>
      else trials_loop False False rest st
                 \<lparr> ticks = later,
                   trace = tr @ [KeysRead [], TrialStarted (currentValue st), Waited 500,
                                 Waited 2000, ResponseScreen, KeysRead [], Waited 2000,
                                 KeysRead [''5''], KeysRead [''return''],
                                 RowWritten [S (name st), I (int t + 1), N (currentValue st),
                                             S ''same time'', I (- 1), I 5]] \<rparr>)"
  by (simp add: run_defs split: sum.splits)


text \<open>
  A counted "after" on a staircase that has not moved up, away from both caps: it is
  counted, no reversal is added and the staircase is still not finished.
\<close>

lemma after_step:
  assumes "\<not> finished st" "direction st \<noteq> UP" "reversalCount st < targetReversals st"
      and "trialsRun st + 1 < maxTrials st"
  obtains st' where "addResponse st 1 = Inr st'" "\<not> finished st'" "direction st' \<noteq> UP"
      "targetReversals st' = targetReversals st" "maxTrials st' = maxTrials st"
      "trialsRun st' = trialsRun st + 1" "reversalCount st' = reversalCount st"
proof -
  define s1 where "s1 = st\<lparr> trialsRun := trialsRun st + 1,
                       responseHistory := responseHistory st @ [DECREASE_SIGNAL],
                       consecutiveDown := consecutiveDown st + 1,
                       consecutiveUp := 0 \<rparr>"
  define s2 where "s2 = (if nDown s1 \<le> consecutiveDown s1 then move DOWN s1 else s1)"
  have a: "addResponse st 1 = Inr (check_finished s2)"
    using assms(1)
    by (simp add: addResponse_def decode_response_def applyResponse_def Let_def s1_def s2_def)
  have dir: "direction st = NONE \<or> direction st = DOWN"
    using assms(2) by (cases "direction st") simp_all
  have f1: "direction s1 = direction st" "reversalCount s1 = reversalCount st"
    "targetReversals s1 = targetReversals st" "maxTrials s1 = maxTrials st"
    "trialsRun s1 = trialsRun st + 1" "finished s1 = finished st"
    by (simp_all add: s1_def)
  have f2: "direction s2 \<noteq> UP" "reversalCount s2 = reversalCount st"
    "targetReversals s2 = targetReversals st" "maxTrials s2 = maxTrials st"
    "trialsRun s2 = trialsRun st + 1" "finished s2 = finished st"
    using f1 dir by (auto simp add: s2_def move_def)
  have f3: "direction (check_finished s2) \<noteq> UP"
    "reversalCount (check_finished s2) = reversalCount st"
    "targetReversals (check_finished s2) = targetReversals st"
    "maxTrials (check_finished s2) = maxTrials st"
    "trialsRun (check_finished s2) = trialsRun st + 1"
    "\<not> finished (check_finished s2)"
    using f2 assms by (simp_all add: check_finished_def)
  from a f3 that show thesis by blast
qed

text \<open>
  \<open>n\<close> iterations of the trial loop in each of which nothing is pressed at the check,
  "after" is clicked and the confidence 5 is entered, on such a staircase with more
  than \<open>n\<close> trials to its cap: the loop goes through all of them, with one trial, one
  call of \<^verbatim>\<open>addResponse\<close> and one row each.
\<close>

lemma afters:
  assumes "length ts = n"
      and "\<not> finished st" "direction st \<noteq> UP" "reversalCount st < targetReversals st"
      and "trialsRun st + n < maxTrials st"
  shows "\<exists>st' tr'.
           trials_loop False False (ts @ rest) st
             \<lparr> ticks = concat (replicate n [idle, click 2, press [''5''], press [''return'']])
                       @ later,
               trace = tr \<rparr>
           = trials_loop False False rest st' \<lparr> ticks = later, trace = tr @ tr' \<rparr>
         \<and> \<not> finished st' \<and> trialsRun st' = trialsRun st + n
         \<and> reversalCount st' = reversalCount st \<and> maxTrials st' = maxTrials st
         \<and> length (trials_of tr') = n \<and> length (rows_of tr') = n
         \<and> adds_of tr' = replicate n 1"
  using assms
proof (induction n arbitrary: ts st tr)
  case 0
  then show ?case
    by (intro exI[of _ st] exI[of _ "[]"]) simp
next
  case (Suc n)
  then obtain t ts' where ts: "ts = t # ts'" "length ts' = n" by (cases ts) auto
  from Suc.prems have "trialsRun st + 1 < maxTrials st" by simp
  from after_step[OF Suc.prems(2,3,4) this] obtain s where
    s: "addResponse st 1 = Inr s" "\<not> finished s" "direction s \<noteq> UP"
       "targetReversals s = targetReversals st" "maxTrials s = maxTrials st"
       "trialsRun s = trialsRun st + 1" "reversalCount s = reversalCount st"
    by blast
  let ?ev = "[KeysRead [], TrialStarted (currentValue st), Waited 500,
              Waited 2000, ResponseScreen, KeysRead [], Waited 2000, AddResponse 1,
              KeysRead [''5''], KeysRead [''return''],
              RowWritten [S (name st), I (int t + 1), N (currentValue st),
                          S ''after'', I 1, I 5]]"
  let ?later = "concat (replicate n [idle, click 2, press [''5''], press [''return'']]) @ later"
  have first: "trials_loop False False ((t # ts') @ rest) st
             \<lparr> ticks = concat (replicate (Suc n) [idle, click 2, press [''5''], press [''return'']])
                       @ later,
               trace = tr \<rparr>
        = trials_loop False False (ts' @ rest) s \<lparr> ticks = ?later, trace = tr @ ?ev \<rparr>"
    using iteration_after[of t "ts' @ rest" st ?later tr] Suc.prems(2) s(1)
    by (simp del: trials_loop.simps)
  from Suc.prems s have "trialsRun s + n < maxTrials s" "reversalCount s < targetReversals s"
    by simp_all
  from Suc.IH[OF ts(2) s(2) s(3) this(2) this(1), of "tr @ ?ev"] obtain st' tr' where
    ih: "trials_loop False False (ts' @ rest) s \<lparr> ticks = ?later, trace = tr @ ?ev \<rparr>
           = trials_loop False False rest st' \<lparr> ticks = later, trace = (tr @ ?ev) @ tr' \<rparr>"
        "\<not> finished st'" "trialsRun st' = trialsRun s + n"
        "reversalCount st' = reversalCount s" "maxTrials st' = maxTrials s"
        "length (trials_of tr') = n" "length (rows_of tr') = n" "adds_of tr' = replicate n 1"
    by blast
  show ?case
  proof (intro exI[of _ st'] exI[of _ "?ev @ tr'"] conjI)
    show "trials_loop False False (ts @ rest) st
             \<lparr> ticks = concat (replicate (Suc n) [idle, click 2, press [''5''], press [''return'']])
                       @ later,
               trace = tr \<rparr>
           = trials_loop False False rest st' \<lparr> ticks = later, trace = tr @ ?ev @ tr' \<rparr>"
      using first ih(1) ts(1) by (simp del: trials_loop.simps)
    show "\<not> finished st'" by (rule ih(2))
    show "trialsRun st' = trialsRun st + Suc n" using ih(3) s(6) by simp
    show "reversalCount st' = reversalCount st" using ih(4) s(7) by simp
    show "maxTrials st' = maxTrials st" using ih(5) s(5) by simp
    show "length (trials_of (?ev @ tr')) = Suc n" using ih(6) by (simp add: trials_of_append)
    show "length (rows_of (?ev @ tr')) = Suc n" using ih(7) by (simp add: rows_of_append)
    show "adds_of (?ev @ tr') = replicate (Suc n) 1" using ih(8) by (simp add: adds_of_append)
  qed
qed

text \<open>
  C2. The first staircase of the task (at most 15 trials, 3 reversals), a participant
  who answers "same time" once and then "after" fourteen times, so that no reversal
  occurs: the loop runs its fifteen iterations, starts fifteen trials and logs fifteen
  rows, calls \<^verbatim>\<open>addResponse\<close> fourteen times, and returns a staircase with fourteen
  counted trials that is not finished.
\<close>

theorem repeat_uses_up_an_iteration:
  "(case trials_loop False False [0..<15] (staircase_set ! 0)
           (script (concat ([idle, click 1, press [''5''], press [''return'']]
                            # replicate 14 [idle, click 2, press [''5''], press [''return'']]))) of
      Done st w' \<Rightarrow>
        (maxTrials st, trialsRun st, reversalCount st, finished st,
         length (trials_of (trace w')), length (rows_of (trace w')), adds_of (trace w'), ticks w')
        = (15, 14, 0, False, 15, 15, replicate 14 1, [])
    | Quit w' \<Rightarrow> False
    | Raised e w' \<Rightarrow> False
    | Diverges w' \<Rightarrow> False)"
proof -
  let ?st = "staircase_set ! 0"
  let ?B = "[idle, click 2, press [''5''], press [''return'']]"
  let ?ev = "[KeysRead [], TrialStarted (currentValue ?st), Waited 500,
              Waited 2000, ResponseScreen, KeysRead [], Waited 2000,
              KeysRead [''5''], KeysRead [''return''],
              RowWritten [S (name ?st), I (int 0 + 1), N (currentValue ?st),
                          S ''same time'', I (- 1), I 5]]"
  have st: "\<not> finished ?st" "direction ?st \<noteq> UP" "reversalCount ?st = 0"
    "targetReversals ?st = 3" "trialsRun ?st = 0" "maxTrials ?st = 15"
    by (simp_all add: staircase_set_def new_staircase_def)
  have ts: "[0..<15] = 0 # [1..<15]" by (simp add: upt_rec)
  have n: "length [1..<15::nat] = 14" by simp
  have first: "trials_loop False False [0..<15] ?st
                 (script (concat ([idle, click 1, press [''5''], press [''return'']]
                                  # replicate 14 ?B)))
        = trials_loop False False ([1..<15] @ []) ?st
            \<lparr> ticks = concat (replicate 14 ?B) @ [], trace = [] @ ?ev \<rparr>"
    unfolding ts
    using iteration_same[of 0 "[1..<15]" ?st "concat (replicate 14 ?B)" "[]"] st(1)
    by (simp add: script_def del: trials_loop.simps upt_rec_numeral)
  from st have pre: "reversalCount ?st < targetReversals ?st" "trialsRun ?st + 14 < maxTrials ?st"
    by simp_all
  from afters[OF n st(1) st(2) pre, of "[]" "[]" "[] @ ?ev"] obtain st' tr' where
    run: "trials_loop False False ([1..<15] @ []) ?st
            \<lparr> ticks = concat (replicate 14 ?B) @ [], trace = [] @ ?ev \<rparr>
          = trials_loop False False [] st' \<lparr> ticks = [], trace = ([] @ ?ev) @ tr' \<rparr>"
      and res: "\<not> finished st'" "trialsRun st' = trialsRun ?st + 14"
        "reversalCount st' = reversalCount ?st" "maxTrials st' = maxTrials ?st"
        "length (trials_of tr') = 14" "length (rows_of tr') = 14" "adds_of tr' = replicate 14 1"
    by blast
  have "trials_loop False False [0..<15] ?st
          (script (concat ([idle, click 1, press [''5''], press [''return'']] # replicate 14 ?B)))
        = Done st' \<lparr> ticks = [], trace = ?ev @ tr' \<rparr>"
    using first run by simp
  moreover have "length (trials_of (?ev @ tr')) = 15" "length (rows_of (?ev @ tr')) = 15"
    "adds_of (?ev @ tr') = replicate 14 1"
    using res(5,6,7) by (simp_all add: trials_of_append rows_of_append adds_of_append)
  ultimately show ?thesis using res(1,2,3,4) st by simp
qed

end
